theory Spec2Isabelle
  imports Main "HOL-Library.Word"
begin

section \<open>FamPoints bot: the store and the update handlers of index.js\<close>

text \<open>
  The bot keeps five SQLite tables and reacts to Telegram updates. The tables are
  modelled as the schema declares them, the handlers as functions from the store to
  the store. Timestamps, counters and ids are SQLite INTEGERs and JavaScript numbers
  that stay far below \<open>2^53\<close>; they are unbounded integers here.
\<close>

subsection \<open>JavaScript strings\<close>

text \<open>
  A JavaScript string is a sequence of UTF-16 code units. \<open>trim\<close> removes the
  code units of ECMAScript's WhiteSpace and LineTerminator productions at both ends.
\<close>

type_synonym jsstring = "16 word list"

definition js_whitespace :: "16 word \<Rightarrow> bool" where
  "js_whitespace c =
     (c = 9 \<or> c = 10 \<or> c = 11 \<or> c = 12 \<or> c = 13 \<or> c = 32 \<or> c = 160 \<or> c = 5760
      \<or> (8192 \<le> c \<and> c \<le> 8202) \<or> c = 8232 \<or> c = 8233 \<or> c = 8239 \<or> c = 8287
      \<or> c = 12288 \<or> c = 65279)"

definition trim :: "jsstring \<Rightarrow> jsstring" where
  "trim s = rev (dropWhile js_whitespace (rev (dropWhile js_whitespace s)))"

definition startsWith :: "jsstring \<Rightarrow> jsstring \<Rightarrow> bool" where
  "startsWith s p = (take (length p) s = p)"

text \<open>The two literals of the message handler: \<open>"+"\<close> and \<open>"/"\<close>.\<close>

definition plus_sign :: jsstring where
  "plus_sign = [43]"

definition slash :: jsstring where
  "slash = [47]"

text \<open>Truthiness of an optional string: \<open>undefined\<close> and \<open>""\<close> are falsy.\<close>

definition truthy :: "jsstring option \<Rightarrow> bool" where
  "truthy s = (case s of None \<Rightarrow> False | Some v \<Rightarrow> v \<noteq> [])"

text \<open>\<open>s || null\<close> and \<open>s || ""\<close>.\<close>

definition or_null :: "jsstring option \<Rightarrow> jsstring option" where
  "or_null s = (if truthy s then s else None)"

definition or_empty :: "jsstring option \<Rightarrow> jsstring" where
  "or_empty s = (case s of None \<Rightarrow> [] | Some v \<Rightarrow> v)"

text \<open>
  A string bound to a statement is stored as UTF-8, and what a query returns is that
  UTF-8 read back: a surrogate code unit that is not half of a pair comes back as
  \<open>U+FFFD\<close>, every other code unit as it was. Every string column of the tables
  holds such text, and a string compared in a \<open>WHERE\<close> clause is compared as such
  text.
\<close>

definition high_surrogate :: "16 word \<Rightarrow> bool" where
  "high_surrogate c = (55296 \<le> c \<and> c \<le> 56319)"

definition low_surrogate :: "16 word \<Rightarrow> bool" where
  "low_surrogate c = (56320 \<le> c \<and> c \<le> 57343)"

fun sqlite_text :: "jsstring \<Rightarrow> jsstring" where
  "sqlite_text [] = []"
| "sqlite_text [c] = (if high_surrogate c \<or> low_surrogate c then [65533] else [c])"
| "sqlite_text (c # c' # cs) =
     (if high_surrogate c \<and> low_surrogate c' then c # c' # sqlite_text cs
      else if high_surrogate c \<or> low_surrogate c then 65533 # sqlite_text (c' # cs)
      else c # sqlite_text (c' # cs))"

subsection \<open>Configuration\<close>

definition KARMA_COOLDOWN_SECONDS :: int where
  "KARMA_COOLDOWN_SECONDS = 30"

definition INVITE_CONFIRM_AFTER_SECONDS :: int where
  "INVITE_CONFIRM_AFTER_SECONDS = 24 * 3600"

definition INVITE_CONFIRM_MIN_MESSAGES :: int where
  "INVITE_CONFIRM_MIN_MESSAGES = 3"

subsection \<open>The tables\<close>

text \<open>
  \<open>users\<close>, \<open>stats\<close> and \<open>karma_cooldowns\<close> are only read and written by their
  primary key \<open>(chat_id, user_id)\<close>: they are maps from that key. \<open>invite_links\<close>
  is also searched by link and \<open>invite_joins\<close> is scanned, so both are lists of rows
  in insertion order; their inserts keep the primary key unique, as SQLite does. A
  query on one of the two with \<open>chat_id=?\<close> is answered from the index of the
  primary key: its rows come in ascending order of the key's second column. The column
  \<open>confirmed\<close> only ever holds 0 or 1 and is a truth value here.
\<close>

record users_row =
  row_username :: "jsstring option"
  row_first_name :: "jsstring option"

record stats_row =
  messages :: int
  karma :: int
  karma_given :: int
  invites_pending :: int
  invites_confirmed :: int

record invite_links_row =
  il_chat_id :: int
  il_inviter_id :: int
  il_invite_link :: jsstring

record invite_joins_row =
  ij_chat_id :: int
  ij_joined_user_id :: int
  ij_inviter_id :: "int option"
  ij_joined_at :: int
  ij_confirmed :: bool

record db =
  users :: "int \<times> int \<rightharpoonup> users_row"
  stats :: "int \<times> int \<rightharpoonup> stats_row"
  karma_cooldowns :: "int \<times> int \<rightharpoonup> int"
  invite_links :: "invite_links_row list"
  invite_joins :: "invite_joins_row list"

definition empty_db :: db where
  "empty_db = \<lparr>users = Map.empty, stats = Map.empty, karma_cooldowns = Map.empty,
     invite_links = [], invite_joins = []\<rparr>"

text \<open>The column defaults of a fresh \<open>stats\<close> row.\<close>

definition zero_stats :: stats_row where
  "zero_stats = \<lparr>messages = 0, karma = 0, karma_given = 0, invites_pending = 0,
     invites_confirmed = 0\<rparr>"

text \<open>The primary keys of the two list tables.\<close>

definition il_key :: "invite_links_row \<Rightarrow> int \<times> int" where
  "il_key r = (il_chat_id r, il_inviter_id r)"

definition ij_key :: "invite_joins_row \<Rightarrow> int \<times> int" where
  "ij_key r = (ij_chat_id r, ij_joined_user_id r)"

subsection \<open>Telegram objects\<close>

text \<open>
  A Telegram \<open>User\<close> always carries an integer \<open>id\<close>; \<open>username\<close> and
  \<open>first_name\<close> may be missing. Of a message the handlers read the text, the new
  members, the invite link the members joined by and the author of the message replied
  to. The clock \<open>now()\<close> is read several times in one handler run: a handler takes
  the sequence of the readings it will get.
\<close>

record user =
  user_id :: int
  username :: "jsstring option"
  first_name :: "jsstring option"

record message =
  msg_text :: "jsstring option"
  new_chat_members :: "user list"
  invite_link :: "jsstring option"
  reply_to_message_from :: "user option"

record ctx =
  chat_id :: int
  from_user :: "user option"
  msg :: message

type_synonym clock = "nat \<Rightarrow> int"

definition later :: "clock \<Rightarrow> clock" where
  "later clk = (\<lambda>n. clk (Suc n))"

subsection \<open>Statements on the stats table\<close>

text \<open>\<open>INSERT INTO stats (chat_id, user_id) VALUES (?, ?) ON CONFLICT DO NOTHING\<close>\<close>

definition insert_stats :: "db \<Rightarrow> int \<Rightarrow> int \<Rightarrow> db" where
  "insert_stats d chatId userId =
     (case stats d (chatId, userId) of
        None \<Rightarrow> d\<lparr>stats := (stats d)((chatId, userId) \<mapsto> zero_stats)\<rparr>
      | Some s \<Rightarrow> d)"

text \<open>\<open>UPDATE stats SET ... WHERE chat_id=? AND user_id=?\<close>: no row, no change.\<close>

definition update_stats :: "db \<Rightarrow> int \<Rightarrow> int \<Rightarrow> (stats_row \<Rightarrow> stats_row) \<Rightarrow> db" where
  "update_stats d chatId userId f =
     (case stats d (chatId, userId) of
        None \<Rightarrow> d
      | Some s \<Rightarrow> d\<lparr>stats := (stats d)((chatId, userId) \<mapsto> f s)\<rparr>)"

text \<open>The row the \<open>/me\<close> command shows: the stored one, or zeros.\<close>

definition getStats :: "db \<Rightarrow> int \<times> int \<Rightarrow> stats_row" where
  "getStats d k = (case stats d k of None \<Rightarrow> zero_stats | Some s \<Rightarrow> s)"

subsection \<open>upsertUser\<close>

definition upsertUser :: "db \<Rightarrow> int \<Rightarrow> user option \<Rightarrow> db" where
  "upsertUser d chatId u =
     (case u of
        None \<Rightarrow> d
      | Some v \<Rightarrow>
          if user_id v = 0 then d
          else insert_stats
                 (d\<lparr>users := (users d)((chatId, user_id v) \<mapsto>
                      \<lparr>row_username = map_option sqlite_text (or_null (username v)),
                       row_first_name = map_option sqlite_text (or_null (first_name v))\<rparr>)\<rparr>)
                 chatId (user_id v))"

subsection \<open>The commands\<close>

text \<open>
  \<open>/me\<close> upserts the sender and reads the sender's row. Without a sender
  (\<open>ctx.from\<close> undefined) \<open>upsertUser\<close> returns at once and \<open>u.id\<close> throws.
  \<open>/leaderboard\<close> only reads.
\<close>

datatype error = TypeError | ApiError | SqliteConstraint

definition me :: "db \<Rightarrow> int \<Rightarrow> user option \<Rightarrow> db \<times> (error + stats_row)" where
  "me d chatId u =
     (let d1 = upsertUser d chatId u in
      case u of
        None \<Rightarrow> (d1, Inl TypeError)
      | Some v \<Rightarrow> (d1, Inr (getStats d1 (chatId, user_id v))))"

definition leaderboard :: "db \<Rightarrow> int \<Rightarrow> db" where
  "leaderboard d chatId = d"

text \<open>
  \<open>/myinvite\<close>. The platform call \<open>createChatInviteLink\<close> is external: its
  outcome \<open>created\<close> is a parameter, \<open>None\<close> when the call is rejected and the
  link otherwise. The plain \<open>INSERT\<close> fails on a primary key that is taken; the first
  reply is the link as the platform gave it, a later one the link as stored. The
  result holds the store, the link replied (or the error thrown) and how often the
  platform was called.
\<close>

record myinvite_result =
  store :: db
  replied :: "error + jsstring"
  creator_calls :: nat

definition select_invite_link :: "db \<Rightarrow> int \<Rightarrow> int \<Rightarrow> invite_links_row option" where
  "select_invite_link d chatId inviterId =
     find (\<lambda>r. il_chat_id r = chatId \<and> il_inviter_id r = inviterId) (invite_links d)"

definition insert_invite_link :: "db \<Rightarrow> int \<Rightarrow> int \<Rightarrow> jsstring \<Rightarrow> error + db" where
  "insert_invite_link d chatId inviterId link =
     (case select_invite_link d chatId inviterId of
        Some r \<Rightarrow> Inl SqliteConstraint
      | None \<Rightarrow> Inr (d\<lparr>invite_links := invite_links d @
          [\<lparr>il_chat_id = chatId, il_inviter_id = inviterId,
            il_invite_link = sqlite_text link\<rparr>]\<rparr>))"

definition myinvite :: "db \<Rightarrow> int \<Rightarrow> user option \<Rightarrow> jsstring option \<Rightarrow> myinvite_result" where
  "myinvite d chatId u created =
     (let d1 = upsertUser d chatId u in
      case u of
        None \<Rightarrow> \<lparr>store = d1, replied = Inl TypeError, creator_calls = 0\<rparr>
      | Some v \<Rightarrow>
          let existing = select_invite_link d1 chatId (user_id v) in
          if truthy (map_option il_invite_link existing)
          then \<lparr>store = d1, replied = Inr (or_empty (map_option il_invite_link existing)),
                 creator_calls = 0\<rparr>
          else
            (case created of
               None \<Rightarrow> \<lparr>store = d1, replied = Inl ApiError, creator_calls = 1\<rparr>
             | Some link \<Rightarrow>
                 (case insert_invite_link d1 chatId (user_id v) link of
                    Inl e \<Rightarrow> \<lparr>store = d1, replied = Inl e, creator_calls = 1\<rparr>
                  | Inr d2 \<Rightarrow> \<lparr>store = d2, replied = Inr link, creator_calls = 1\<rparr>)))"

subsection \<open>The message handler: joins\<close>

text \<open>
  The inviter of a join: of the \<open>invite_links\<close> rows of the chat with the link the
  service message carries, the one with the least \<open>inviter_id\<close> (\<open>get\<close> returns
  the first row, and the rows come from the primary-key index), when the message carries
  a link and that row's inviter is truthy.
\<close>

definition resolve_inviter :: "db \<Rightarrow> int \<Rightarrow> jsstring option \<Rightarrow> int option" where
  "resolve_inviter d chatId inviteLink =
     (case inviteLink of
        None \<Rightarrow> None
      | Some l \<Rightarrow>
          if l = [] then None
          else
            (case find (\<lambda>r. il_chat_id r = chatId \<and> il_invite_link r = sqlite_text l)
                    (sort_key il_inviter_id (invite_links d)) of
               None \<Rightarrow> None
             | Some r \<Rightarrow> if il_inviter_id r = 0 then None else Some (il_inviter_id r)))"

text \<open>\<open>INSERT INTO invite_joins ... VALUES (?, ?, ?, ?, 0) ON CONFLICT DO NOTHING\<close>\<close>

definition insert_invite_join :: "db \<Rightarrow> int \<Rightarrow> int \<Rightarrow> int option \<Rightarrow> int \<Rightarrow> db" where
  "insert_invite_join d chatId joinedUserId inviterId t =
     (if (chatId, joinedUserId) \<in> set (map ij_key (invite_joins d)) then d
      else d\<lparr>invite_joins := invite_joins d @
        [\<lparr>ij_chat_id = chatId, ij_joined_user_id = joinedUserId, ij_inviter_id = inviterId,
          ij_joined_at = t, ij_confirmed = False\<rparr>]\<rparr>)"

definition add_pending :: "stats_row \<Rightarrow> stats_row" where
  "add_pending s = s\<lparr>invites_pending := invites_pending s + 1\<rparr>"

text \<open>One round of the loop over \<open>new_chat_members\<close>; \<open>t\<close> is its reading of the clock.\<close>

definition record_join :: "db \<Rightarrow> int \<Rightarrow> jsstring option \<Rightarrow> user \<Rightarrow> int \<Rightarrow> db" where
  "record_join d chatId inviteLink joinUser t =
     (let d1 = upsertUser d chatId (Some joinUser);
          inviterId = resolve_inviter d1 chatId inviteLink;
          d2 = insert_invite_join d1 chatId (user_id joinUser) inviterId t
      in case inviterId of
           None \<Rightarrow> d2
         | Some i \<Rightarrow> update_stats (insert_stats d2 chatId i) chatId i add_pending)"

fun join_loop :: "db \<Rightarrow> int \<Rightarrow> jsstring option \<Rightarrow> user list \<Rightarrow> clock \<Rightarrow> db" where
  "join_loop d chatId inviteLink [] clk = d"
| "join_loop d chatId inviteLink (joinUser # rest) clk =
     join_loop (record_join d chatId inviteLink joinUser (clk 0)) chatId inviteLink rest
       (later clk)"

subsection \<open>The message handler: message counter and karma\<close>

definition add_message :: "stats_row \<Rightarrow> stats_row" where
  "add_message s = s\<lparr>messages := messages s + 1\<rparr>"

definition add_karma :: "stats_row \<Rightarrow> stats_row" where
  "add_karma s = s\<lparr>karma := karma s + 1\<rparr>"

definition add_karma_given :: "stats_row \<Rightarrow> stats_row" where
  "add_karma_given s = s\<lparr>karma_given := karma_given s + 1\<rparr>"

text \<open>The condition of the counter: \<open>ctx.message.text && !text.startsWith("/")\<close>.\<close>

definition counts_message :: "message \<Rightarrow> bool" where
  "counts_message m =
     (truthy (msg_text m) \<and> \<not> startsWith (trim (or_empty (msg_text m))) slash)"

text \<open>
  The condition of the karma block:
  \<open>ctx.message.text && text === "+" && ctx.message.reply_to_message?.from\<close>.
\<close>

definition karma_trigger :: "message \<Rightarrow> bool" where
  "karma_trigger m =
     (truthy (msg_text m) \<and> trim (or_empty (msg_text m)) = plus_sign
      \<and> reply_to_message_from m \<noteq> None)"

text \<open>
  The writes of a grant, in the order of the source: the cooldown row, the
  recipient's identity and row, the recipient's \<open>karma\<close>, the giver's \<open>karma_given\<close>.
\<close>

definition grant :: "db \<Rightarrow> int \<Rightarrow> user \<Rightarrow> user \<Rightarrow> int \<Rightarrow> db" where
  "grant d chatId u target t =
     (let d1 = d\<lparr>karma_cooldowns := (karma_cooldowns d)((chatId, user_id u) \<mapsto> t)\<rparr>;
          d2 = upsertUser d1 chatId (Some target);
          d3 = update_stats d2 chatId (user_id target) add_karma
      in update_stats d3 chatId (user_id u) add_karma_given)"

text \<open>
  The karma block either returns from the handler or falls through to the
  confirmation checks. The clock is read once, after the two identity guards.
\<close>

datatype flow = Return db | Fallthrough db

definition karma_block :: "db \<Rightarrow> int \<Rightarrow> user \<Rightarrow> user \<Rightarrow> int \<Rightarrow> flow" where
  "karma_block d chatId u target t =
     (if user_id target = 0 then Return d
      else if user_id target = user_id u then Return d
      else
        (case karma_cooldowns d (chatId, user_id u) of
           None \<Rightarrow> Fallthrough (grant d chatId u target t)
         | Some last_at \<Rightarrow>
             if t - last_at < KARMA_COOLDOWN_SECONDS then Return d
             else Fallthrough (grant d chatId u target t)))"

subsection \<open>The message handler: confirmation checks\<close>

text \<open>
  The candidates are at most five unconfirmed rows of the chat with an inviter. The
  query has no \<open>ORDER BY\<close>: SQLite answers it from the primary-key index, so the
  five are those with the least \<open>joined_user_id\<close>, in ascending order.
\<close>

definition is_candidate :: "int \<Rightarrow> invite_joins_row \<Rightarrow> bool" where
  "is_candidate chatId r =
     (ij_chat_id r = chatId \<and> \<not> ij_confirmed r \<and> ij_inviter_id r \<noteq> None)"

definition candidates :: "db \<Rightarrow> int \<Rightarrow> invite_joins_row list" where
  "candidates d chatId =
     take 5 (sort_key ij_joined_user_id (filter (is_candidate chatId) (invite_joins d)))"

text \<open>\<open>UPDATE invite_joins SET confirmed=1 WHERE chat_id=? AND joined_user_id=?\<close>\<close>

definition set_confirmed :: "db \<Rightarrow> int \<Rightarrow> int \<Rightarrow> db" where
  "set_confirmed d chatId joinedUserId =
     d\<lparr>invite_joins :=
         map (\<lambda>r. if ij_key r = (chatId, joinedUserId) then r\<lparr>ij_confirmed := True\<rparr> else r)
           (invite_joins d)\<rparr>"

definition shift_invite :: "stats_row \<Rightarrow> stats_row" where
  "shift_invite s =
     s\<lparr>invites_pending := (if invites_pending s > 0 then invites_pending s - 1 else 0),
       invites_confirmed := invites_confirmed s + 1\<rparr>"

text \<open>One round of the loop over the candidates; \<open>t\<close> is its reading of the clock.\<close>

definition confirm_candidate :: "db \<Rightarrow> int \<Rightarrow> invite_joins_row \<Rightarrow> int \<Rightarrow> db" where
  "confirm_candidate d chatId c t =
     (if t - ij_joined_at c < INVITE_CONFIRM_AFTER_SECONDS then d
      else if messages (getStats d (chatId, ij_joined_user_id c)) < INVITE_CONFIRM_MIN_MESSAGES
      then d
      else
        (let d1 = set_confirmed d chatId (ij_joined_user_id c) in
         case ij_inviter_id c of
           None \<Rightarrow> d1
         | Some i \<Rightarrow> update_stats d1 chatId i shift_invite))"

fun confirm_loop :: "db \<Rightarrow> int \<Rightarrow> invite_joins_row list \<Rightarrow> clock \<Rightarrow> db" where
  "confirm_loop d chatId [] clk = d"
| "confirm_loop d chatId (c # cs) clk =
     confirm_loop (confirm_candidate d chatId c (clk 0)) chatId cs (later clk)"

definition confirmation_checks :: "db \<Rightarrow> int \<Rightarrow> clock \<Rightarrow> db" where
  "confirmation_checks d chatId clk = confirm_loop d chatId (candidates d chatId) clk"

subsection \<open>The message handler\<close>

definition on_message :: "db \<Rightarrow> ctx \<Rightarrow> clock \<Rightarrow> db" where
  "on_message d c clk =
     (let chatId = chat_id c; m = msg c in
      if new_chat_members m \<noteq> []
      then join_loop d chatId (invite_link m) (new_chat_members m) clk
      else
        (case from_user c of
           None \<Rightarrow> d
         | Some u \<Rightarrow>
             if user_id u = 0 then d
             else
               (let d1 = upsertUser d chatId (Some u);
                    d2 = (if counts_message m
                          then update_stats d1 chatId (user_id u) add_message else d1)
                in if karma_trigger m
                   then
                     (case reply_to_message_from m of
                        None \<Rightarrow> confirmation_checks d2 chatId clk
                      | Some target \<Rightarrow>
                          (case karma_block d2 chatId u target (clk 0) of
                             Return d3 \<Rightarrow> d3
                           | Fallthrough d3 \<Rightarrow> confirmation_checks d3 chatId (later clk)))
                   else confirmation_checks d2 chatId clk)))"

subsection \<open>Runs of the bot\<close>

text \<open>
  The bot handles one update at a time. An update runs one handler: the message
  handler, or one of the three commands.
\<close>

datatype update =
    Message ctx clock
  | Me int "user option"
  | Leaderboard int
  | Myinvite int "user option" "jsstring option"

fun handle :: "db \<Rightarrow> update \<Rightarrow> db" where
  "handle d (Message c clk) = on_message d c clk"
| "handle d (Me chatId u) = fst (me d chatId u)"
| "handle d (Leaderboard chatId) = leaderboard d chatId"
| "handle d (Myinvite chatId u created) = store (myinvite d chatId u created)"

fun run :: "db \<Rightarrow> update list \<Rightarrow> db" where
  "run d [] = d"
| "run d (x # xs) = run (handle d x) xs"

subsection \<open>Views and example data\<close>

text \<open>Whether a user has a \<open>stats\<close> row.\<close>

definition has_stats :: "db \<Rightarrow> int \<times> int \<Rightarrow> bool" where
  "has_stats d k = (stats d k \<noteq> None)"

text \<open>Three users of chat 1 and a store in which one of them has counters.\<close>

definition alice :: user where
  "alice = \<lparr>user_id = 7, username = Some [97], first_name = Some [65]\<rparr>"

definition bob :: user where
  "bob = \<lparr>user_id = 8, username = None, first_name = Some [66]\<rparr>"

definition carol :: user where
  "carol = \<lparr>user_id = 9, username = None, first_name = None\<rparr>"

definition seen_db :: db where
  "seen_db = empty_db\<lparr>stats := [(1, 7) \<mapsto>
     \<lparr>messages = 4, karma = 2, karma_given = 1, invites_pending = 1,
      invites_confirmed = 3\<rparr>]\<rparr>"

text \<open>The five counters of a user, as \<open>/me\<close> shows them.\<close>

definition messages_of :: "db \<Rightarrow> int \<times> int \<Rightarrow> int" where
  "messages_of d k = messages (getStats d k)"

definition karma_of :: "db \<Rightarrow> int \<times> int \<Rightarrow> int" where
  "karma_of d k = karma (getStats d k)"

definition karma_given_of :: "db \<Rightarrow> int \<times> int \<Rightarrow> int" where
  "karma_given_of d k = karma_given (getStats d k)"

definition pending_of :: "db \<Rightarrow> int \<times> int \<Rightarrow> int" where
  "pending_of d k = invites_pending (getStats d k)"

definition confirmed_of :: "db \<Rightarrow> int \<times> int \<Rightarrow> int" where
  "confirmed_of d k = invites_confirmed (getStats d k)"

text \<open>
  The store of the message handler after its first two steps, the upsert of the sender
  and the message counter.
\<close>

definition after_counter :: "db \<Rightarrow> ctx \<Rightarrow> user \<Rightarrow> db" where
  "after_counter d c u =
     (if counts_message (msg c)
      then update_stats (upsertUser d (chat_id c) (Some u)) (chat_id c) (user_id u) add_message
      else upsertUser d (chat_id c) (Some u))"

text \<open>A text message of chat 1, and a clock that stands still.\<close>

definition says :: "user \<Rightarrow> jsstring \<Rightarrow> user option \<Rightarrow> ctx" where
  "says u s r = \<lparr>chat_id = 1, from_user = Some u,
     msg = \<lparr>msg_text = Some s, new_chat_members = [], invite_link = None,
       reply_to_message_from = r\<rparr>\<rparr>"

definition at_time :: "int \<Rightarrow> clock" where
  "at_time t = (\<lambda>n. t)"

text \<open>
  A giver is cooling down at time \<open>t\<close> when a cooldown row exists and less than 30
  seconds have passed since its timestamp.
\<close>

definition cooling :: "db \<Rightarrow> int \<times> int \<Rightarrow> int \<Rightarrow> bool" where
  "cooling d k t = (case karma_cooldowns d k of None \<Rightarrow> False | Some last_at \<Rightarrow> t - last_at < 30)"

text \<open>
  A store in which carol joined chat 1 at time 0 by alice's link and has since sent three
  messages, and the same store with bob cooling down since time 89990.
\<close>

definition pending_db :: db where
  "pending_db = empty_db\<lparr>
     stats := [(1, 7) \<mapsto> zero_stats\<lparr>invites_pending := 1\<rparr>,
               (1, 9) \<mapsto> zero_stats\<lparr>messages := 3\<rparr>],
     invite_links := [\<lparr>il_chat_id = 1, il_inviter_id = 7, il_invite_link = [116]\<rparr>],
     invite_joins := [\<lparr>ij_chat_id = 1, ij_joined_user_id = 9, ij_inviter_id = Some 7,
       ij_joined_at = 0, ij_confirmed = False\<rparr>]\<rparr>"

definition cooling_db :: db where
  "cooling_db = pending_db\<lparr>karma_cooldowns := [(1, 8) \<mapsto> 89990]\<rparr>"

text \<open>
  A store in which alice has an invite link, and the service message of carol joining
  chat 1 by that link.
\<close>

definition link_db :: db where
  "link_db = empty_db\<lparr>
     invite_links := [\<lparr>il_chat_id = 1, il_inviter_id = 7, il_invite_link = [116]\<rparr>]\<rparr>"

definition carol_joins :: ctx where
  "carol_joins = \<lparr>chat_id = 1, from_user = Some carol,
     msg = \<lparr>msg_text = None, new_chat_members = [carol], invite_link = Some [116],
       reply_to_message_from = None\<rparr>\<rparr>"

text \<open>
  The texts a message count is claimed for: non-empty and not starting with \<open>"/"\<close>,
  read on the text as it came and on the text with the whitespace at both ends removed.
  A message of user \<open>U\<close> in chat \<open>C\<close> is a run of the message handler with sender
  \<open>U\<close>, chat \<open>C\<close> and no new members.
\<close>

definition plain_text :: "jsstring option \<Rightarrow> bool" where
  "plain_text t = (case t of None \<Rightarrow> False | Some s \<Rightarrow> s \<noteq> [] \<and> \<not> startsWith s slash)"

definition plain_trimmed_text :: "jsstring option \<Rightarrow> bool" where
  "plain_trimmed_text t =
     (case t of None \<Rightarrow> False | Some s \<Rightarrow> s \<noteq> [] \<and> \<not> startsWith (trim s) slash)"

definition message_of_user :: "int \<Rightarrow> int \<Rightarrow> ctx \<Rightarrow> bool" where
  "message_of_user C U c =
     (chat_id c = C \<and> new_chat_members (msg c) = []
      \<and> (case from_user c of None \<Rightarrow> False | Some u \<Rightarrow> user_id u = U))"

fun counted_by :: "(jsstring option \<Rightarrow> bool) \<Rightarrow> int \<Rightarrow> int \<Rightarrow> update \<Rightarrow> bool" where
  "counted_by P C U (Message c clk) = (message_of_user C U c \<and> P (msg_text (msg c)))"
| "counted_by P C U (Me chatId u) = False"
| "counted_by P C U (Leaderboard chatId) = False"
| "counted_by P C U (Myinvite chatId u created) = False"

text \<open>
  A join is due at time \<open>t\<close> when at least 24 hours (86400 seconds) have passed since
  it was recorded and the joined user has at least 3 messages. The keys a run of the
  confirmation loop confirms are those of the candidates that are due at their reading
  of the clock.
\<close>

definition due :: "db \<Rightarrow> int \<Rightarrow> invite_joins_row \<Rightarrow> int \<Rightarrow> bool" where
  "due d chatId r t =
     (86400 \<le> t - ij_joined_at r \<and> 3 \<le> messages_of d (chatId, ij_joined_user_id r))"

fun due_keys :: "db \<Rightarrow> int \<Rightarrow> invite_joins_row list \<Rightarrow> clock \<Rightarrow> (int \<times> int) set" where
  "due_keys d chatId [] clk = {}"
| "due_keys d chatId (r # rs) clk =
     (if due d chatId r (clk 0) then {(chatId, ij_joined_user_id r)} else {})
     \<union> due_keys d chatId rs (later clk)"

definition confirm_keys :: "(int \<times> int) set \<Rightarrow> invite_joins_row \<Rightarrow> invite_joins_row" where
  "confirm_keys K r = (if ij_key r \<in> K then r\<lparr>ij_confirmed := True\<rparr> else r)"

text \<open>Rows whose keys are new to a table and differ from each other.\<close>

definition fresh_rows :: "invite_joins_row list \<Rightarrow> invite_joins_row list \<Rightarrow> bool" where
  "fresh_rows old rows =
     (distinct (map ij_key rows) \<and> ij_key ` set old \<inter> ij_key ` set rows = {})"

text \<open>
  A store of chat 1 with six pending joins by alice's link, recorded at time 0 for the
  users 20, 19, 18, 17, 16 and 15 in this order; only user 15 has sent three messages.
\<close>

definition six_joins_db :: db where
  "six_joins_db = empty_db\<lparr>
     stats := [(1, 7) \<mapsto> zero_stats\<lparr>invites_pending := 6\<rparr>,
               (1, 15) \<mapsto> zero_stats\<lparr>messages := 3\<rparr>],
     invite_links := [\<lparr>il_chat_id = 1, il_inviter_id = 7, il_invite_link = [116]\<rparr>],
     invite_joins := map (\<lambda>j. \<lparr>ij_chat_id = 1, ij_joined_user_id = j, ij_inviter_id = Some 7,
       ij_joined_at = 0, ij_confirmed = False\<rparr>) [20, 19, 18, 17, 16, 15]\<rparr>"

text \<open>Carol's row in \<open>pending_db\<close>.\<close>

definition carol_row :: invite_joins_row where
  "carol_row = \<lparr>ij_chat_id = 1, ij_joined_user_id = 9, ij_inviter_id = Some 7,
     ij_joined_at = 0, ij_confirmed = False\<rparr>"

section \<open>Properties\<close>

subsection \<open>What each statement leaves alone\<close>

lemma getStats_insert_stats: "getStats (insert_stats d c i) = getStats d"
  by (rule ext) (simp add: getStats_def insert_stats_def split: option.splits)

lemma getStats_upsertUser: "getStats (upsertUser d c u) = getStats d"
  by (rule ext) (simp add: upsertUser_def getStats_def insert_stats_def split: option.splits)

lemma getStats_update_stats:
  "getStats (update_stats d c i f) k =
     (if k = (c, i) \<and> has_stats d k then f (getStats d k) else getStats d k)"
  by (auto simp: getStats_def update_stats_def has_stats_def split: option.splits)

lemma has_stats_insert_stats:
  "has_stats (insert_stats d c i) k = (k = (c, i) \<or> has_stats d k)"
  by (auto simp: has_stats_def insert_stats_def split: option.splits)

lemma has_stats_update_stats: "has_stats (update_stats d c i f) k = has_stats d k"
  by (auto simp: has_stats_def update_stats_def split: option.splits)

lemma has_stats_upsertUser:
  "has_stats (upsertUser d c u) k =
     ((case u of None \<Rightarrow> False | Some v \<Rightarrow> user_id v \<noteq> 0 \<and> k = (c, user_id v))
      \<or> has_stats d k)"
  by (auto simp: has_stats_def upsertUser_def insert_stats_def split: option.splits)

lemma tables_insert_stats:
  "users (insert_stats d c i) = users d"
  "karma_cooldowns (insert_stats d c i) = karma_cooldowns d"
  "invite_links (insert_stats d c i) = invite_links d"
  "invite_joins (insert_stats d c i) = invite_joins d"
  by (simp_all add: insert_stats_def split: option.splits)

lemma tables_update_stats:
  "users (update_stats d c i f) = users d"
  "karma_cooldowns (update_stats d c i f) = karma_cooldowns d"
  "invite_links (update_stats d c i f) = invite_links d"
  "invite_joins (update_stats d c i f) = invite_joins d"
  by (simp_all add: update_stats_def split: option.splits)

lemma tables_upsertUser:
  "karma_cooldowns (upsertUser d c u) = karma_cooldowns d"
  "invite_links (upsertUser d c u) = invite_links d"
  "invite_joins (upsertUser d c u) = invite_joins d"
  by (simp_all add: upsertUser_def tables_insert_stats split: option.splits)

lemma resolve_inviter_cong:
  assumes "invite_links d' = invite_links d"
  shows "resolve_inviter d' c l = resolve_inviter d c l"
  unfolding resolve_inviter_def assms ..

lemma resolve_inviter_upsertUser:
  "resolve_inviter (upsertUser d c u) c' l = resolve_inviter d c' l"
  by (rule resolve_inviter_cong) (simp add: tables_upsertUser)

lemma tables_insert_invite_join:
  "users (insert_invite_join d c j i t) = users d"
  "stats (insert_invite_join d c j i t) = stats d"
  "karma_cooldowns (insert_invite_join d c j i t) = karma_cooldowns d"
  "invite_links (insert_invite_join d c j i t) = invite_links d"
  by (simp_all add: insert_invite_join_def)

lemma getStats_insert_invite_join: "getStats (insert_invite_join d c j i t) = getStats d"
  by (rule ext) (simp add: getStats_def tables_insert_invite_join)

lemma has_stats_insert_invite_join: "has_stats (insert_invite_join d c j i t) = has_stats d"
  by (rule ext) (simp add: has_stats_def tables_insert_invite_join)

lemma tables_record_join:
  "karma_cooldowns (record_join d c l j t) = karma_cooldowns d"
  "invite_links (record_join d c l j t) = invite_links d"
  by (simp_all add: record_join_def Let_def tables_update_stats tables_insert_stats
      tables_insert_invite_join tables_upsertUser split: option.splits)

lemma insert_invite_join_cong:
  assumes "invite_joins d' = invite_joins d"
  shows "invite_joins (insert_invite_join d' c j i t) = invite_joins (insert_invite_join d c j i t)"
  by (simp add: insert_invite_join_def assms)

lemma invite_joins_record_join:
  "invite_joins (record_join d c l j t) =
     invite_joins (insert_invite_join d c (user_id j) (resolve_inviter d c l) t)"
proof -
  let ?d1 = "upsertUser d c (Some j)"
  have r: "resolve_inviter ?d1 c l = resolve_inviter d c l"
    by (rule resolve_inviter_cong) (simp add: tables_upsertUser)
  have "invite_joins (record_join d c l j t) =
      invite_joins (insert_invite_join ?d1 c (user_id j) (resolve_inviter ?d1 c l) t)"
    by (simp add: record_join_def Let_def tables_update_stats tables_insert_stats
        split: option.splits)
  also have "\<dots> = invite_joins (insert_invite_join d c (user_id j) (resolve_inviter d c l) t)"
    unfolding r by (rule insert_invite_join_cong) (simp add: tables_upsertUser)
  finally show ?thesis .
qed

lemma getStats_record_join:
  "getStats (record_join d c l j t) k =
     (case resolve_inviter d c l of
        None \<Rightarrow> getStats d k
      | Some i \<Rightarrow> if k = (c, i) then add_pending (getStats d k) else getStats d k)"
  by (simp add: record_join_def Let_def getStats_update_stats getStats_insert_stats
      getStats_insert_invite_join getStats_upsertUser has_stats_insert_stats
      resolve_inviter_upsertUser split: option.splits)

lemma has_stats_record_join: "has_stats d k \<Longrightarrow> has_stats (record_join d c l j t) k"
  by (simp add: record_join_def Let_def has_stats_update_stats has_stats_insert_stats
      has_stats_insert_invite_join has_stats_upsertUser split: option.splits)

lemma tables_set_confirmed:
  "users (set_confirmed d c j) = users d"
  "stats (set_confirmed d c j) = stats d"
  "karma_cooldowns (set_confirmed d c j) = karma_cooldowns d"
  "invite_links (set_confirmed d c j) = invite_links d"
  by (simp_all add: set_confirmed_def)

lemma getStats_set_confirmed: "getStats (set_confirmed d c j) = getStats d"
  by (rule ext) (simp add: getStats_def tables_set_confirmed)

lemma has_stats_set_confirmed: "has_stats (set_confirmed d c j) = has_stats d"
  by (rule ext) (simp add: has_stats_def tables_set_confirmed)

lemma tables_confirm_candidate:
  "users (confirm_candidate d c r t) = users d"
  "karma_cooldowns (confirm_candidate d c r t) = karma_cooldowns d"
  "invite_links (confirm_candidate d c r t) = invite_links d"
  by (simp_all add: confirm_candidate_def Let_def tables_update_stats tables_set_confirmed
      split: option.splits)

lemma has_stats_confirm_candidate: "has_stats (confirm_candidate d c r t) = has_stats d"
  by (rule ext) (simp add: confirm_candidate_def Let_def has_stats_update_stats
      has_stats_set_confirmed split: option.splits)

lemma getStats_confirm_candidate:
  "getStats (confirm_candidate d c r t) k = getStats d k
   \<or> getStats (confirm_candidate d c r t) k = shift_invite (getStats d k)"
  by (simp add: confirm_candidate_def Let_def getStats_update_stats getStats_set_confirmed
      split: option.splits)

lemma getStats_other_tables:
  "getStats (d\<lparr>users := a\<rparr>) = getStats d"
  "getStats (d\<lparr>karma_cooldowns := b\<rparr>) = getStats d"
  "getStats (d\<lparr>invite_links := e\<rparr>) = getStats d"
  "getStats (d\<lparr>invite_joins := f\<rparr>) = getStats d"
  by (rule ext, simp add: getStats_def)+

lemma has_stats_other_tables:
  "has_stats (d\<lparr>users := a\<rparr>) = has_stats d"
  "has_stats (d\<lparr>karma_cooldowns := b\<rparr>) = has_stats d"
  "has_stats (d\<lparr>invite_links := e\<rparr>) = has_stats d"
  "has_stats (d\<lparr>invite_joins := f\<rparr>) = has_stats d"
  by (rule ext, simp add: has_stats_def)+

lemma tables_grant:
  "karma_cooldowns (grant d c u v t) = (karma_cooldowns d)((c, user_id u) \<mapsto> t)"
  "invite_links (grant d c u v t) = invite_links d"
  "invite_joins (grant d c u v t) = invite_joins d"
  by (simp_all add: grant_def Let_def tables_update_stats tables_upsertUser)

lemma getStats_grant:
  assumes "has_stats d (c, user_id u)" and "user_id v \<noteq> 0"
  shows "getStats (grant d c u v t) k =
     (if k = (c, user_id u) \<and> k = (c, user_id v) then add_karma_given (add_karma (getStats d k))
      else if k = (c, user_id u) then add_karma_given (getStats d k)
      else if k = (c, user_id v) then add_karma (getStats d k)
      else getStats d k)"
  using assms
  by (simp add: grant_def Let_def getStats_update_stats getStats_upsertUser
      has_stats_update_stats has_stats_upsertUser getStats_other_tables
      has_stats_other_tables)

lemma has_stats_grant: "has_stats d k \<Longrightarrow> has_stats (grant d c u v t) k"
  by (simp add: grant_def Let_def has_stats_update_stats has_stats_upsertUser
      has_stats_other_tables)

lemma views_record_join:
  "messages_of (record_join d c l j t) = messages_of d"
  "karma_of (record_join d c l j t) = karma_of d"
  "karma_given_of (record_join d c l j t) = karma_given_of d"
  by (rule ext, simp add: messages_of_def karma_of_def karma_given_of_def
      getStats_record_join add_pending_def split: option.splits)+

lemma views_confirm_candidate:
  "messages_of (confirm_candidate d c r t) = messages_of d"
  "karma_of (confirm_candidate d c r t) = karma_of d"
  "karma_given_of (confirm_candidate d c r t) = karma_given_of d"
proof -
  have "messages_of (confirm_candidate d c r t) k = messages_of d k
      \<and> karma_of (confirm_candidate d c r t) k = karma_of d k
      \<and> karma_given_of (confirm_candidate d c r t) k = karma_given_of d k" for k
    using getStats_confirm_candidate [of d c r t k]
    by (auto simp: messages_of_def karma_of_def karma_given_of_def shift_invite_def)
  then show "messages_of (confirm_candidate d c r t) = messages_of d"
    "karma_of (confirm_candidate d c r t) = karma_of d"
    "karma_given_of (confirm_candidate d c r t) = karma_given_of d"
    by (simp_all add: fun_eq_iff)
qed

lemma tables_join_loop:
  "karma_cooldowns (join_loop d c l js clk) = karma_cooldowns d"
  "invite_links (join_loop d c l js clk) = invite_links d"
  by (induction js arbitrary: d clk; simp add: tables_record_join)+

lemma views_join_loop:
  "messages_of (join_loop d c l js clk) = messages_of d"
  "karma_of (join_loop d c l js clk) = karma_of d"
  "karma_given_of (join_loop d c l js clk) = karma_given_of d"
  by (induction js arbitrary: d clk; simp add: views_record_join)+

lemma has_stats_join_loop: "has_stats d k \<Longrightarrow> has_stats (join_loop d c l js clk) k"
  by (induction js arbitrary: d clk) (simp_all add: has_stats_record_join)

lemma tables_confirm_loop:
  "users (confirm_loop d c cs clk) = users d"
  "karma_cooldowns (confirm_loop d c cs clk) = karma_cooldowns d"
  "invite_links (confirm_loop d c cs clk) = invite_links d"
  by (induction cs arbitrary: d clk; simp add: tables_confirm_candidate)+

lemma views_confirm_loop:
  "messages_of (confirm_loop d c cs clk) = messages_of d"
  "karma_of (confirm_loop d c cs clk) = karma_of d"
  "karma_given_of (confirm_loop d c cs clk) = karma_given_of d"
  by (induction cs arbitrary: d clk; simp add: views_confirm_candidate)+

lemma has_stats_confirm_loop: "has_stats (confirm_loop d c cs clk) = has_stats d"
  by (induction cs arbitrary: d clk) (simp_all add: has_stats_confirm_candidate)

lemma tables_confirmation_checks:
  "users (confirmation_checks d c clk) = users d"
  "karma_cooldowns (confirmation_checks d c clk) = karma_cooldowns d"
  "invite_links (confirmation_checks d c clk) = invite_links d"
  by (simp_all add: confirmation_checks_def tables_confirm_loop)

lemma views_confirmation_checks:
  "messages_of (confirmation_checks d c clk) = messages_of d"
  "karma_of (confirmation_checks d c clk) = karma_of d"
  "karma_given_of (confirmation_checks d c clk) = karma_given_of d"
  by (simp_all add: confirmation_checks_def views_confirm_loop)

lemma has_stats_confirmation_checks: "has_stats (confirmation_checks d c clk) = has_stats d"
  by (simp add: confirmation_checks_def has_stats_confirm_loop)

lemma views_upsertUser:
  "messages_of (upsertUser d c u) = messages_of d"
  "karma_of (upsertUser d c u) = karma_of d"
  "karma_given_of (upsertUser d c u) = karma_given_of d"
  "pending_of (upsertUser d c u) = pending_of d"
  "confirmed_of (upsertUser d c u) = confirmed_of d"
  by (rule ext, simp add: messages_of_def karma_of_def karma_given_of_def pending_of_def
      confirmed_of_def getStats_upsertUser)+

lemma views_add_message:
  "messages_of (update_stats d c i add_message) k =
     (if k = (c, i) \<and> has_stats d k then messages_of d k + 1 else messages_of d k)"
  "karma_of (update_stats d c i add_message) = karma_of d"
  "karma_given_of (update_stats d c i add_message) = karma_given_of d"
  "pending_of (update_stats d c i add_message) = pending_of d"
  "confirmed_of (update_stats d c i add_message) = confirmed_of d"
  by (auto simp: fun_eq_iff messages_of_def karma_of_def karma_given_of_def pending_of_def
      confirmed_of_def getStats_update_stats add_message_def)

lemma on_message_text:
  assumes "new_chat_members (msg c) = []" and "from_user c = Some u" and "user_id u \<noteq> 0"
  shows "on_message d c clk =
     (if karma_trigger (msg c)
      then (case reply_to_message_from (msg c) of
              None \<Rightarrow> confirmation_checks (after_counter d c u) (chat_id c) clk
            | Some target \<Rightarrow>
                (case karma_block (after_counter d c u) (chat_id c) u target (clk 0) of
                   Return d3 \<Rightarrow> d3
                 | Fallthrough d3 \<Rightarrow> confirmation_checks d3 (chat_id c) (later clk)))
      else confirmation_checks (after_counter d c u) (chat_id c) clk)"
  using assms
  by (simp add: on_message_def after_counter_def Let_def
      cong: option.case_cong flow.case_cong if_cong)

lemma tables_after_counter:
  "karma_cooldowns (after_counter d c u) = karma_cooldowns d"
  "invite_links (after_counter d c u) = invite_links d"
  "invite_joins (after_counter d c u) = invite_joins d"
  by (simp_all add: after_counter_def tables_update_stats tables_upsertUser)

lemma views_after_counter:
  "karma_of (after_counter d c u) = karma_of d"
  "karma_given_of (after_counter d c u) = karma_given_of d"
  "pending_of (after_counter d c u) = pending_of d"
  "confirmed_of (after_counter d c u) = confirmed_of d"
  by (simp_all add: after_counter_def views_add_message views_upsertUser)

lemma has_stats_after_counter:
  "has_stats (after_counter d c u) k = ((user_id u \<noteq> 0 \<and> k = (chat_id c, user_id u)) \<or> has_stats d k)"
  by (simp add: after_counter_def has_stats_update_stats has_stats_upsertUser)

lemma messages_after_counter:
  "user_id u \<noteq> 0 \<Longrightarrow> messages_of (after_counter d c u) k =
     (if counts_message (msg c) \<and> k = (chat_id c, user_id u) then messages_of d k + 1
      else messages_of d k)"
  by (simp add: after_counter_def views_add_message views_upsertUser has_stats_upsertUser)

lemma karma_block_self:
  "user_id target = user_id u \<Longrightarrow> karma_block d c u target t = Return d"
  by (simp add: karma_block_def)

text \<open>A message that does not run the karma block leaves karma alone.\<close>

lemma on_message_no_trigger:
  assumes "\<not> karma_trigger (msg c)"
  shows "karma_of (on_message d c clk) = karma_of d
    \<and> karma_given_of (on_message d c clk) = karma_given_of d
    \<and> karma_cooldowns (on_message d c clk) = karma_cooldowns d"
proof (cases "new_chat_members (msg c) = []")
  case False
  then show ?thesis
    by (simp add: on_message_def Let_def views_join_loop tables_join_loop)
next
  case True
  show ?thesis
  proof (cases "from_user c")
    case None
    with True show ?thesis by (simp add: on_message_def Let_def)
  next
    case (Some u)
    show ?thesis
    proof (cases "user_id u = 0")
      case True
      with Some \<open>new_chat_members (msg c) = []\<close> show ?thesis
        by (simp add: on_message_def Let_def)
    next
      case False
      with Some True assms show ?thesis
        by (simp add: on_message_text views_confirmation_checks tables_confirmation_checks
            views_after_counter tables_after_counter)
    qed
  qed
qed

text \<open>The definitions a concrete run unfolds.\<close>

lemmas eval_defs = on_message_def Let_def upsertUser_def insert_stats_def update_stats_def
  karma_block_def grant_def confirmation_checks_def candidates_def is_candidate_def
  confirm_candidate_def set_confirmed_def counts_message_def karma_trigger_def truthy_def
  or_null_def or_empty_def trim_def js_whitespace_def startsWith_def plus_sign_def slash_def
  getStats_def zero_stats_def add_message_def add_karma_def add_karma_given_def
  shift_invite_def add_pending_def record_join_def resolve_inviter_def insert_invite_join_def
  ij_key_def il_key_def later_def KARMA_COOLDOWN_SECONDS_def INVITE_CONFIRM_AFTER_SECONDS_def
  INVITE_CONFIRM_MIN_MESSAGES_def messages_of_def karma_of_def karma_given_of_def
  pending_of_def confirmed_of_def empty_db_def says_def at_time_def alice_def bob_def
  carol_def seen_db_def pending_db_def cooling_db_def link_db_def carol_joins_def
  high_surrogate_def low_surrogate_def

subsection \<open>upsertUser and the counters\<close>

text \<open>
  Claim C10. When \<open>(chatId, userId)\<close> already has a \<open>stats\<close> row, \<open>upsertUser\<close>
  for that user leaves the whole \<open>stats\<close> table as it is: its insert is a no-op on
  the conflict. It writes nothing but the user's own \<open>users\<close> row, which holds the
  identity fields only; the other three tables are untouched.
\<close>

theorem upsertUser_keeps_counters:
  assumes "stats d (chatId, user_id v) = Some s"
  shows "stats (upsertUser d chatId (Some v)) = stats d
    \<and> insert_stats d chatId (user_id v) = d
    \<and> karma_cooldowns (upsertUser d chatId (Some v)) = karma_cooldowns d
    \<and> invite_links (upsertUser d chatId (Some v)) = invite_links d
    \<and> invite_joins (upsertUser d chatId (Some v)) = invite_joins d
    \<and> (\<forall>k. k \<noteq> (chatId, user_id v) \<longrightarrow>
          users (upsertUser d chatId (Some v)) k = users d k)"
  using assms by (simp add: upsertUser_def insert_stats_def)

theorem upsertUser_keeps_counters_witness:
  "stats seen_db (1, 7) = Some \<lparr>messages = 4, karma = 2, karma_given = 1,
      invites_pending = 1, invites_confirmed = 3\<rparr>
   \<and> stats (upsertUser seen_db 1 (Some alice)) = stats seen_db
   \<and> users (upsertUser seen_db 1 (Some alice)) (1, 7) =
       Some \<lparr>row_username = Some [97], row_first_name = Some [65]\<rparr>"
  using upsertUser_keeps_counters [of seen_db 1 alice]
  by (simp add: seen_db_def alice_def empty_db_def upsertUser_def insert_stats_def
      or_null_def truthy_def high_surrogate_def low_surrogate_def)

lemma karma_block_cases:
  "karma_block d c u target t =
     (if user_id target = 0 \<or> user_id target = user_id u \<or> cooling d (c, user_id u) t
      then Return d else Fallthrough (grant d c u target t))"
  by (simp add: karma_block_def cooling_def KARMA_COOLDOWN_SECONDS_def split: option.splits)

lemma cooling_after_counter: "cooling (after_counter d c u) = cooling d"
  by (simp add: fun_eq_iff cooling_def tables_after_counter)

lemma on_message_rejected:
  assumes "new_chat_members (msg c) = []" and "from_user c = Some u" and "user_id u \<noteq> 0"
    and "karma_trigger (msg c)" and "reply_to_message_from (msg c) = Some target"
    and "user_id target = 0 \<or> user_id target = user_id u
         \<or> cooling d (chat_id c, user_id u) (clk 0)"
  shows "on_message d c clk = after_counter d c u"
  using assms by (simp add: on_message_text karma_block_cases cooling_after_counter)

lemma on_message_granted:
  assumes "new_chat_members (msg c) = []" and "from_user c = Some u" and "user_id u \<noteq> 0"
    and "karma_trigger (msg c)" and "reply_to_message_from (msg c) = Some target"
    and "user_id target \<noteq> 0" and "user_id target \<noteq> user_id u"
    and "\<not> cooling d (chat_id c, user_id u) (clk 0)"
  shows "on_message d c clk =
     confirmation_checks (grant (after_counter d c u) (chat_id c) u target (clk 0))
       (chat_id c) (later clk)"
  using assms by (simp add: on_message_text karma_block_cases cooling_after_counter)

subsection \<open>Self-grants\<close>

text \<open>
  Claim C7. When the author of the message replied to is the sender, the karma block
  returns with the store as it found it, and the whole message handler leaves every
  user's \<open>karma\<close> and \<open>karma_given\<close> and the cooldown table unchanged.
\<close>

theorem self_grant_is_noop:
  assumes "from_user c = Some u" and "reply_to_message_from (msg c) = Some target"
    and "user_id target = user_id u"
  shows "karma_block d' (chat_id c) u target t = Return d'
    \<and> karma_of (on_message d c clk) = karma_of d
    \<and> karma_given_of (on_message d c clk) = karma_given_of d
    \<and> karma_cooldowns (on_message d c clk) = karma_cooldowns d"
proof -
  have "karma_of (on_message d c clk) = karma_of d
    \<and> karma_given_of (on_message d c clk) = karma_given_of d
    \<and> karma_cooldowns (on_message d c clk) = karma_cooldowns d"
  proof (cases "karma_trigger (msg c)")
    case False
    then show ?thesis by (rule on_message_no_trigger)
  next
    case True
    show ?thesis
    proof (cases "new_chat_members (msg c) = [] \<and> user_id u \<noteq> 0")
      case False
      with assms show ?thesis
        by (auto simp: on_message_def Let_def views_join_loop tables_join_loop)
    next
      case normal: True
      with assms True have "on_message d c clk = after_counter d c u"
        by (intro on_message_rejected) auto
      then show ?thesis
        by (simp add: views_after_counter tables_after_counter)
    qed
  qed
  with assms show ?thesis by (simp add: karma_block_self)
qed

theorem self_grant_is_noop_witness:
  "from_user (says alice plus_sign (Some alice)) = Some alice
   \<and> karma_trigger (msg (says alice plus_sign (Some alice)))
   \<and> karma_of (on_message seen_db (says alice plus_sign (Some alice)) (at_time 1000)) (1, 7) = 2
   \<and> karma_given_of (on_message seen_db (says alice plus_sign (Some alice)) (at_time 1000)) (1, 7) = 1
   \<and> karma_cooldowns (on_message seen_db (says alice plus_sign (Some alice)) (at_time 1000)) = Map.empty"
  using self_grant_is_noop [where c = "says alice plus_sign (Some alice)" and u = alice
      and target = alice and d = seen_db and clk = "at_time 1000"]
  by (simp add: says_def karma_trigger_def truthy_def or_empty_def trim_def js_whitespace_def
      plus_sign_def karma_of_def karma_given_of_def getStats_def seen_db_def empty_db_def)

lemma trim_Nil: "trim [] = []"
  by (simp add: trim_def)

lemma karma_trigger_iff:
  "karma_trigger m =
     ((\<exists>s. msg_text m = Some s \<and> trim s = plus_sign) \<and> reply_to_message_from m \<noteq> None)"
  by (cases "msg_text m")
    (auto simp: karma_trigger_def truthy_def or_empty_def trim_Nil plus_sign_def)

lemma on_message_by_trigger:
  assumes "new_chat_members (msg c) = []" and "from_user c = Some u" and "user_id u \<noteq> 0"
  shows "if karma_trigger (msg c)
         then \<exists>target. reply_to_message_from (msg c) = Some target
            \<and> on_message d c clk =
                (case karma_block (after_counter d c u) (chat_id c) u target (clk 0) of
                   Return d3 \<Rightarrow> d3
                 | Fallthrough d3 \<Rightarrow> confirmation_checks d3 (chat_id c) (later clk))
         else on_message d c clk = confirmation_checks (after_counter d c u) (chat_id c) clk
            \<and> karma_of (on_message d c clk) = karma_of d
            \<and> karma_given_of (on_message d c clk) = karma_given_of d
            \<and> karma_cooldowns (on_message d c clk) = karma_cooldowns d"
proof (cases "karma_trigger (msg c)")
  case True
  then obtain target where "reply_to_message_from (msg c) = Some target"
    by (auto simp: karma_trigger_def)
  with True assms show ?thesis
    by (simp add: on_message_text)
next
  case False
  with assms on_message_no_trigger [OF False, of d clk] show ?thesis
    by (simp add: on_message_text)
qed

subsection \<open>When the karma block runs\<close>

text \<open>
  Claim C5, amended. For a message with a sender and no new members, the karma block
  runs exactly when the text, with the whitespace at both ends removed, is \<open>"+"\<close>
  and the message replied to has an author: then the handler's result is the block's, on
  the store left by the upsert and the message counter. Otherwise the handler goes
  straight to the confirmation checks, and no \<open>karma\<close>, \<open>karma_given\<close> or cooldown
  row changes.
\<close>

theorem karma_runs_on_trimmed_plus:
  assumes "new_chat_members (msg c) = []" and "from_user c = Some u" and "user_id u \<noteq> 0"
  shows "if (\<exists>s. msg_text (msg c) = Some s \<and> trim s = plus_sign)
            \<and> reply_to_message_from (msg c) \<noteq> None
         then \<exists>target. reply_to_message_from (msg c) = Some target
            \<and> on_message d c clk =
                (case karma_block (after_counter d c u) (chat_id c) u target (clk 0) of
                   Return d3 \<Rightarrow> d3
                 | Fallthrough d3 \<Rightarrow> confirmation_checks d3 (chat_id c) (later clk))
         else on_message d c clk = confirmation_checks (after_counter d c u) (chat_id c) clk
            \<and> karma_of (on_message d c clk) = karma_of d
            \<and> karma_given_of (on_message d c clk) = karma_given_of d
            \<and> karma_cooldowns (on_message d c clk) = karma_cooldowns d"
proof -
  have cond: "((\<exists>s. msg_text (msg c) = Some s \<and> trim s = plus_sign)
      \<and> reply_to_message_from (msg c) \<noteq> None) = karma_trigger (msg c)"
    by (simp only: karma_trigger_iff)
  show ?thesis
    unfolding cond by (rule on_message_by_trigger [OF assms])
qed

theorem karma_runs_on_trimmed_plus_witness:
  "new_chat_members (msg (says bob [32, 43, 32] (Some alice))) = []
   \<and> from_user (says bob [32, 43, 32] (Some alice)) = Some bob
   \<and> user_id bob = 8
   \<and> trim [32, 43, 32] = plus_sign
   \<and> on_message seen_db (says bob [32, 43, 32] (Some alice)) (at_time 1000) =
       confirmation_checks
         (grant (after_counter seen_db (says bob [32, 43, 32] (Some alice)) bob) 1 bob alice 1000)
         1 (later (at_time 1000))"
  using karma_runs_on_trimmed_plus [where c = "says bob [32, 43, 32] (Some alice)"
      and u = bob and d = seen_db and clk = "at_time 1000"]
  by (simp add: says_def bob_def alice_def trim_def js_whitespace_def plus_sign_def
      karma_block_def seen_db_def empty_db_def after_counter_def tables_update_stats
      tables_upsertUser at_time_def)

text \<open>
  The text \<open>" +"\<close> is not \<open>"+"\<close>, and a reply with it still grants karma.
\<close>

theorem karma_exact_plus_counterexample:
  "msg_text (msg (says bob [32, 43] (Some alice))) \<noteq> Some plus_sign
   \<and> karma_of (on_message seen_db (says bob [32, 43] (Some alice)) (at_time 1000)) (1, 7)
       = karma_of seen_db (1, 7) + 1
   \<and> karma_given_of (on_message seen_db (says bob [32, 43] (Some alice)) (at_time 1000)) (1, 8)
       = karma_given_of seen_db (1, 8) + 1"
  by (simp add: eval_defs)

lemma length_candidates: "length (candidates d c) \<le> 5"
  by (simp add: candidates_def)

subsection \<open>The confirmation checks after a rejected grant\<close>

text \<open>
  Claim C3. The checks consider at most five candidates, but they do not run on every
  message: the karma block returns from the handler when it rejects a grant. At time
  90000 carol's join is due. A plain message confirms it; a reply \<open>"+"\<close> of alice to
  herself, and one of bob while he is cooling down, leave it pending.
\<close>

theorem rejected_grant_skips_checks:
  "length (candidates pending_db 1) = 1
   \<and> map ij_confirmed
        (invite_joins (on_message pending_db (says alice [104, 105] None) (at_time 90000)))
      = [True]
   \<and> map ij_confirmed
        (invite_joins (on_message pending_db (says alice plus_sign (Some alice)) (at_time 90000)))
      = [False]
   \<and> map ij_confirmed
        (invite_joins (on_message cooling_db (says bob plus_sign (Some alice)) (at_time 90000)))
      = [False]"
  by (simp add: eval_defs)

subsection \<open>A second join notification\<close>

text \<open>
  Claim C4. The second notification of carol's join leaves her \<open>invite_joins\<close> row
  as the first wrote it, but adds to alice's \<open>invites_pending\<close> once more.
\<close>

theorem second_join_counts_again:
  "invite_joins (on_message link_db carol_joins (at_time 100)) =
     [\<lparr>ij_chat_id = 1, ij_joined_user_id = 9, ij_inviter_id = Some 7, ij_joined_at = 100,
       ij_confirmed = False\<rparr>]
   \<and> pending_of (on_message link_db carol_joins (at_time 100)) (1, 7) = 1
   \<and> invite_joins
        (on_message (on_message link_db carol_joins (at_time 100)) carol_joins (at_time 200))
      = invite_joins (on_message link_db carol_joins (at_time 100))
   \<and> pending_of
        (on_message (on_message link_db carol_joins (at_time 100)) carol_joins (at_time 200))
        (1, 7) = 2"
  by (simp add: eval_defs)

text \<open>The five ways through the message handler.\<close>

lemma on_message_cases [case_names joins dropped rejected checked granted]:
  obtains
    "new_chat_members (msg c) \<noteq> []"
      and "on_message d c clk =
        join_loop d (chat_id c) (invite_link (msg c)) (new_chat_members (msg c)) clk"
  | "new_chat_members (msg c) = []"
      and "case from_user c of None \<Rightarrow> True | Some u \<Rightarrow> user_id u = 0"
      and "on_message d c clk = d"
  | u where "new_chat_members (msg c) = []" and "from_user c = Some u" and "user_id u \<noteq> 0"
      and "karma_trigger (msg c)" and "on_message d c clk = after_counter d c u"
  | u where "new_chat_members (msg c) = []" and "from_user c = Some u" and "user_id u \<noteq> 0"
      and "\<not> karma_trigger (msg c)"
      and "on_message d c clk = confirmation_checks (after_counter d c u) (chat_id c) clk"
  | u target where "new_chat_members (msg c) = []" and "from_user c = Some u"
      and "user_id u \<noteq> 0" and "karma_trigger (msg c)"
      and "reply_to_message_from (msg c) = Some target"
      and "user_id target \<noteq> 0" and "user_id target \<noteq> user_id u"
      and "\<not> cooling d (chat_id c, user_id u) (clk 0)"
      and "on_message d c clk =
        confirmation_checks (grant (after_counter d c u) (chat_id c) u target (clk 0))
          (chat_id c) (later clk)"
proof (cases "new_chat_members (msg c) = []")
  case False
  then show ?thesis
    by (intro that(1)) (simp_all add: on_message_def Let_def)
next
  case nojoin: True
  show ?thesis
  proof (cases "from_user c")
    case None
    with nojoin show ?thesis
      by (intro that(2)) (simp_all add: on_message_def Let_def)
  next
    case (Some u)
    show ?thesis
    proof (cases "user_id u = 0")
      case True
      with nojoin Some show ?thesis
        by (intro that(2)) (simp_all add: on_message_def Let_def)
    next
      case valid: False
      show ?thesis
      proof (cases "karma_trigger (msg c)")
        case False
        with nojoin Some valid show ?thesis
          by (intro that(4) [of u]) (simp_all add: on_message_text)
      next
        case True
        then obtain target where target: "reply_to_message_from (msg c) = Some target"
          by (auto simp: karma_trigger_def)
        show ?thesis
        proof (cases "user_id target = 0 \<or> user_id target = user_id u
            \<or> cooling d (chat_id c, user_id u) (clk 0)")
          case True
          with nojoin Some valid \<open>karma_trigger (msg c)\<close> target show ?thesis
            by (intro that(3) [of u] on_message_rejected [of c u target]) auto
        next
          case False
          with nojoin Some valid \<open>karma_trigger (msg c)\<close> target show ?thesis
            by (intro that(5) [of u target] on_message_granted) auto
        qed
      qed
    qed
  qed
qed


subsection \<open>The invite link registry\<close>















subsection \<open>The invite counters\<close>

text \<open>
  Two facts that every step keeps: no \<open>invites_pending\<close> is negative, and no sum
  \<open>invites_pending + invites_confirmed\<close> goes down.
\<close>

lemma invites_update_stats_karma:
  "pending_of (update_stats d c i add_karma) = pending_of d"
  "confirmed_of (update_stats d c i add_karma) = confirmed_of d"
  "pending_of (update_stats d c i add_karma_given) = pending_of d"
  "confirmed_of (update_stats d c i add_karma_given) = confirmed_of d"
  by (auto simp: fun_eq_iff pending_of_def confirmed_of_def getStats_update_stats
      add_karma_def add_karma_given_def)

lemma invites_grant:
  "pending_of (grant d c u v t) = pending_of d"
  "confirmed_of (grant d c u v t) = confirmed_of d"
proof -
  have "pending_of (d\<lparr>karma_cooldowns := x\<rparr>) = pending_of d"
    and "confirmed_of (d\<lparr>karma_cooldowns := x\<rparr>) = confirmed_of d" for x
    by (simp_all add: fun_eq_iff pending_of_def confirmed_of_def getStats_other_tables)
  then show "pending_of (grant d c u v t) = pending_of d"
    and "confirmed_of (grant d c u v t) = confirmed_of d"
    by (simp_all add: grant_def Let_def invites_update_stats_karma views_upsertUser)
qed

lemma invites_record_join:
  "pending_of (record_join d c l j t) k =
     (if resolve_inviter d c l \<noteq> None \<and> k = (c, the (resolve_inviter d c l))
      then pending_of d k + 1 else pending_of d k)"
  "confirmed_of (record_join d c l j t) k = confirmed_of d k"
  by (auto simp: pending_of_def confirmed_of_def getStats_record_join add_pending_def
      split: option.splits)

lemma invites_confirm_candidate:
  "(pending_of (confirm_candidate d c r t) k = pending_of d k
      \<and> confirmed_of (confirm_candidate d c r t) k = confirmed_of d k)
   \<or> (pending_of (confirm_candidate d c r t) k = (if pending_of d k > 0 then pending_of d k - 1 else 0)
      \<and> confirmed_of (confirm_candidate d c r t) k = confirmed_of d k + 1)"
  using getStats_confirm_candidate [of d c r t k]
  by (auto simp: pending_of_def confirmed_of_def shift_invite_def)

text \<open>The step relation of the two facts.\<close>

lemma invites_step_record_join:
  "pending_of d k \<le> pending_of (record_join d c l j t) k
   \<and> pending_of d k + confirmed_of d k
       \<le> pending_of (record_join d c l j t) k + confirmed_of (record_join d c l j t) k"
  by (simp add: invites_record_join)

lemma invites_step_confirm_candidate:
  "(0 \<le> pending_of d k \<longrightarrow> 0 \<le> pending_of (confirm_candidate d c r t) k)
   \<and> pending_of d k + confirmed_of d k
       \<le> pending_of (confirm_candidate d c r t) k + confirmed_of (confirm_candidate d c r t) k"
  using invites_confirm_candidate [of d c r t k] by auto

lemma invites_join_loop:
  "(0 \<le> pending_of d k \<longrightarrow> 0 \<le> pending_of (join_loop d c l js clk) k)
   \<and> pending_of d k + confirmed_of d k
       \<le> pending_of (join_loop d c l js clk) k + confirmed_of (join_loop d c l js clk) k"
proof (induction js arbitrary: d clk)
  case Nil
  then show ?case by simp
next
  case (Cons j js)
  from invites_step_record_join [of d k c l j "clk 0"]
    Cons.IH [of "record_join d c l j (clk 0)" "later clk"]
  show ?case by auto
qed

lemma invites_confirm_loop:
  "(0 \<le> pending_of d k \<longrightarrow> 0 \<le> pending_of (confirm_loop d c cs clk) k)
   \<and> pending_of d k + confirmed_of d k
       \<le> pending_of (confirm_loop d c cs clk) k + confirmed_of (confirm_loop d c cs clk) k"
proof (induction cs arbitrary: d clk)
  case Nil
  then show ?case by simp
next
  case (Cons r cs)
  from invites_step_confirm_candidate [of d k c r "clk 0"]
    Cons.IH [of "confirm_candidate d c r (clk 0)" "later clk"]
  show ?case by auto
qed

lemma invites_on_message:
  "(0 \<le> pending_of d k \<longrightarrow> 0 \<le> pending_of (on_message d c clk) k)
   \<and> pending_of d k + confirmed_of d k
       \<le> pending_of (on_message d c clk) k + confirmed_of (on_message d c clk) k"
proof (cases d c clk rule: on_message_cases)
  case joins
  with invites_join_loop [of d k "chat_id c" "invite_link (msg c)" "new_chat_members (msg c)" clk]
  show ?thesis by simp
next
  case dropped
  then show ?thesis by simp
next
  case (rejected u)
  then show ?thesis by (simp add: views_after_counter)
next
  case (checked u)
  with invites_confirm_loop [of "after_counter d c u" k "chat_id c"
      "candidates (after_counter d c u) (chat_id c)" clk]
  show ?thesis by (simp add: confirmation_checks_def views_after_counter)
next
  case (granted u target)
  let ?g = "grant (after_counter d c u) (chat_id c) u target (clk 0)"
  from granted invites_confirm_loop [of ?g k "chat_id c" "candidates ?g (chat_id c)" "later clk"]
  show ?thesis by (simp add: confirmation_checks_def views_after_counter invites_grant)
qed

lemma invites_myinvite:
  "pending_of (store (myinvite d c u created)) = pending_of d"
  "confirmed_of (store (myinvite d c u created)) = confirmed_of d"
proof -
  have "getStats (store (myinvite d c u created)) = getStats d"
    by (auto simp: myinvite_def Let_def insert_invite_link_def getStats_upsertUser
        getStats_other_tables split: option.splits sum.splits)
  then show "pending_of (store (myinvite d c u created)) = pending_of d"
    and "confirmed_of (store (myinvite d c u created)) = confirmed_of d"
    by (simp_all add: fun_eq_iff pending_of_def confirmed_of_def)
qed

lemma invites_handle:
  "(0 \<le> pending_of d k \<longrightarrow> 0 \<le> pending_of (handle d x) k)
   \<and> pending_of d k + confirmed_of d k
       \<le> pending_of (handle d x) k + confirmed_of (handle d x) k"
proof (cases x)
  case (Message c clk)
  with invites_on_message [of d k c clk] show ?thesis by simp
next
  case (Me c u)
  then show ?thesis by (simp add: me_def Let_def views_upsertUser split: option.splits)
next
  case (Leaderboard c)
  then show ?thesis by (simp add: leaderboard_def)
next
  case (Myinvite c u created)
  then show ?thesis by (simp add: invites_myinvite)
qed

lemma invites_run:
  "(0 \<le> pending_of d k \<longrightarrow> 0 \<le> pending_of (run d xs) k)
   \<and> pending_of d k + confirmed_of d k
       \<le> pending_of (run d xs) k + confirmed_of (run d xs) k"
proof (induction xs arbitrary: d)
  case Nil
  then show ?case by simp
next
  case (Cons x xs)
  from invites_handle [of d k x] Cons.IH [of "handle d x"]
  show ?case by auto
qed


text \<open>
  Claim C8. In every store the bot reaches from the empty one, every
  \<open>invites_pending\<close> is at least 0, as a stored row and as \<open>/me\<close> shows it. From
  any store, no update and no run of updates lowers a user's
  \<open>invites_pending + invites_confirmed\<close>. The decrement of a confirmation is
  \<open>max 0 (invites_pending - 1)\<close>.
\<close>

theorem invites_pending_floor_and_sum:
  "0 \<le> pending_of (run empty_db xs) k
   \<and> (\<forall>s. stats (run empty_db xs) k = Some s \<longrightarrow> 0 \<le> invites_pending s)
   \<and> pending_of d k + confirmed_of d k
       \<le> pending_of (handle d x) k + confirmed_of (handle d x) k
   \<and> pending_of d k + confirmed_of d k
       \<le> pending_of (run d ys) k + confirmed_of (run d ys) k
   \<and> invites_pending (shift_invite s0) = max 0 (invites_pending s0 - 1)"
proof -
  have "pending_of empty_db k = 0"
    by (simp add: pending_of_def getStats_def empty_db_def zero_stats_def)
  with invites_run [of empty_db k xs] have floor: "0 \<le> pending_of (run empty_db xs) k"
    by simp
  then have "\<forall>s. stats (run empty_db xs) k = Some s \<longrightarrow> 0 \<le> invites_pending s"
    by (auto simp: pending_of_def getStats_def)
  moreover have "invites_pending (shift_invite s0) = max 0 (invites_pending s0 - 1)"
    by (simp add: shift_invite_def)
  ultimately show ?thesis
    using floor invites_handle [of d k x] invites_run [of d k ys] by blast
qed

theorem invites_pending_floor_and_sum_witness:
  "pending_of (run empty_db [Myinvite 1 (Some alice) (Some [116]),
       Message carol_joins (at_time 100)]) (1, 7) = 1
   \<and> stats (run empty_db [Myinvite 1 (Some alice) (Some [116]),
       Message carol_joins (at_time 100)]) (1, 7) = Some (zero_stats\<lparr>invites_pending := 1\<rparr>)
   \<and> pending_of pending_db (1, 7) + confirmed_of pending_db (1, 7) = 1
   \<and> pending_of (handle pending_db (Message (says alice [104, 105] None) (at_time 90000))) (1, 7)
       = 0
   \<and> confirmed_of (handle pending_db (Message (says alice [104, 105] None) (at_time 90000)))
        (1, 7) = 1"
proof -
  have "pending_of (run empty_db [Myinvite 1 (Some alice) (Some [116]),
       Message carol_joins (at_time 100)]) (1, 7) = 1"
    by code_simp
  moreover have "stats (run empty_db [Myinvite 1 (Some alice) (Some [116]),
       Message carol_joins (at_time 100)]) (1, 7) = Some (zero_stats\<lparr>invites_pending := 1\<rparr>)"
    by code_simp
  moreover have "pending_of pending_db (1, 7) + confirmed_of pending_db (1, 7) = 1"
    by code_simp
  moreover have "pending_of (handle pending_db
      (Message (says alice [104, 105] None) (at_time 90000))) (1, 7) = 0"
    by code_simp
  moreover have "confirmed_of (handle pending_db
      (Message (says alice [104, 105] None) (at_time 90000))) (1, 7) = 1"
    by code_simp
  ultimately show ?thesis
    using invites_pending_floor_and_sum [where xs = "[Myinvite 1 (Some alice) (Some [116]),
        Message carol_joins (at_time 100)]" and k = "(1, 7)" and d = pending_db
        and x = "Message (says alice [104, 105] None) (at_time 90000)" and ys = "[]"
        and ?s0.0 = zero_stats]
    by blast
qed

subsection \<open>The message counter\<close>

lemma counts_message_plain: "counts_message m = plain_trimmed_text (msg_text m)"
  by (cases "msg_text m")
    (simp_all add: counts_message_def plain_trimmed_text_def truthy_def or_empty_def)

lemma messages_grant: "messages_of (grant d c u v t) = messages_of d"
proof -
  have "messages_of (update_stats e c i add_karma) = messages_of e"
    and "messages_of (update_stats e c i add_karma_given) = messages_of e" for e i
    by (auto simp: fun_eq_iff messages_of_def getStats_update_stats add_karma_def
        add_karma_given_def)
  moreover have "messages_of (d\<lparr>karma_cooldowns := x\<rparr>) = messages_of d" for x
    by (simp add: fun_eq_iff messages_of_def getStats_other_tables)
  ultimately show ?thesis
    by (simp add: grant_def Let_def views_upsertUser)
qed

lemma messages_on_message:
  "messages_of (on_message d c clk) k =
     (if message_of_user (fst k) (snd k) c \<and> snd k \<noteq> 0 \<and> counts_message (msg c)
      then messages_of d k + 1 else messages_of d k)"
proof (cases d c clk rule: on_message_cases)
  case joins
  then show ?thesis by (simp add: views_join_loop message_of_user_def)
next
  case dropped
  then show ?thesis
    by (auto simp: message_of_user_def split: option.splits)
next
  case (rejected u)
  then show ?thesis
    by (cases k) (auto simp: messages_after_counter message_of_user_def)
next
  case (checked u)
  then show ?thesis
    by (cases k) (auto simp: views_confirmation_checks messages_after_counter message_of_user_def)
next
  case (granted u target)
  then show ?thesis
    by (cases k)
      (auto simp: views_confirmation_checks messages_grant messages_after_counter
        message_of_user_def)
qed

lemma messages_handle:
  assumes "U \<noteq> 0"
  shows "messages_of (handle d x) (C, U) =
     messages_of d (C, U) + (if counted_by plain_trimmed_text C U x then 1 else 0)"
proof (cases x)
  case (Message c clk)
  with assms show ?thesis
    by (simp add: messages_on_message counts_message_plain)
next
  case (Me c u)
  then show ?thesis by (simp add: me_def Let_def views_upsertUser split: option.splits)
next
  case (Leaderboard c)
  then show ?thesis by (simp add: leaderboard_def)
next
  case (Myinvite c u created)
  have "getStats (store (myinvite d c u created)) = getStats d"
    by (auto simp: myinvite_def Let_def insert_invite_link_def getStats_upsertUser
        getStats_other_tables split: option.splits sum.splits)
  with Myinvite show ?thesis by (simp add: messages_of_def)
qed

lemma messages_run:
  assumes "U \<noteq> 0"
  shows "messages_of (run d xs) (C, U) =
     messages_of d (C, U) + int (length (filter (counted_by plain_trimmed_text C U) xs))"
  by (induction xs arbitrary: d) (simp_all add: messages_handle [OF assms])


text \<open>
  Claim C6, amended. For a user \<open>U\<close> with a non-zero id, the \<open>messages\<close> counter
  after any run of updates is the counter before plus the number of \<open>U\<close>'s messages in
  chat \<open>C\<close> whose text is non-empty and, with the whitespace at both ends removed,
  does not start with \<open>"/"\<close>; from the empty store it is that number. Whatever else is
  handled in between does not matter, and a message handler run that is not such a
  message (a command, an empty text, a join, another user's message) leaves the counter
  as it is.
\<close>

theorem messages_count_trimmed:
  assumes "U \<noteq> 0"
  shows "messages_of (run d xs) (C, U) =
        messages_of d (C, U) + int (length (filter (counted_by plain_trimmed_text C U) xs))
    \<and> messages_of (run empty_db xs) (C, U) =
        int (length (filter (counted_by plain_trimmed_text C U) xs))
    \<and> (\<not> (message_of_user C U c \<and> plain_trimmed_text (msg_text (msg c))) \<longrightarrow>
        messages_of (on_message e c clk) (C, U) = messages_of e (C, U))"
proof -
  have "messages_of empty_db (C, U) = 0"
    by (simp add: messages_of_def getStats_def empty_db_def zero_stats_def)
  then show ?thesis
    using messages_run [OF assms, of d xs C] messages_run [OF assms, of empty_db xs C]
      messages_handle [OF assms, of e "Message c clk" C]
    by simp
qed

theorem messages_count_trimmed_witness:
  "filter (counted_by plain_trimmed_text 1 7)
     [Message (says alice [104, 105] None) (at_time 5),
      Message (says bob [121, 111] None) (at_time 6),
      Message (says alice [47, 109, 101] None) (at_time 7),
      Message carol_joins (at_time 8),
      Message (says alice [111, 107, 32] None) (at_time 9)]
   = [Message (says alice [104, 105] None) (at_time 5),
      Message (says alice [111, 107, 32] None) (at_time 9)]
   \<and> messages_of (run empty_db
     [Message (says alice [104, 105] None) (at_time 5),
      Message (says bob [121, 111] None) (at_time 6),
      Message (says alice [47, 109, 101] None) (at_time 7),
      Message carol_joins (at_time 8),
      Message (says alice [111, 107, 32] None) (at_time 9)]) (1, 7) = 2"
proof -
  have seven: "(7::int) \<noteq> 0" by simp
  have "filter (counted_by plain_trimmed_text 1 7)
     [Message (says alice [104, 105] None) (at_time 5),
      Message (says bob [121, 111] None) (at_time 6),
      Message (says alice [47, 109, 101] None) (at_time 7),
      Message carol_joins (at_time 8),
      Message (says alice [111, 107, 32] None) (at_time 9)]
   = [Message (says alice [104, 105] None) (at_time 5),
      Message (says alice [111, 107, 32] None) (at_time 9)]"
    by (simp add: message_of_user_def plain_trimmed_text_def eval_defs)
  with messages_count_trimmed [OF seven, where C = 1 and d = empty_db and e = empty_db
      and c = carol_joins and clk = "at_time 8" and xs =
     "[Message (says alice [104, 105] None) (at_time 5),
       Message (says bob [121, 111] None) (at_time 6),
       Message (says alice [47, 109, 101] None) (at_time 7),
       Message carol_joins (at_time 8),
       Message (says alice [111, 107, 32] None) (at_time 9)]"]
  show ?thesis by simp
qed

text \<open>
  The text \<open>" /x"\<close> is non-empty and does not start with \<open>"/"\<close>, and it is not
  counted; the text of two spaces is empty once trimmed, and it is counted.
\<close>

theorem messages_count_counterexample:
  "length (filter (counted_by plain_text 1 7)
      [Message (says alice [32, 47, 120] None) (at_time 5)]) = 1
   \<and> messages_of (run empty_db [Message (says alice [32, 47, 120] None) (at_time 5)]) (1, 7) = 0
   \<and> trim [32, 32] = []
   \<and> messages_of (run empty_db [Message (says alice [32, 32] None) (at_time 5)]) (1, 7) = 1"
  by (simp add: message_of_user_def plain_text_def eval_defs)

subsection \<open>The confirmation of joins\<close>

lemma due_cong: "messages_of d' = messages_of d \<Longrightarrow> due d' = due d"
  by (simp add: fun_eq_iff due_def)

lemma due_keys_cong:
  assumes "messages_of d' = messages_of d"
  shows "due_keys d' c rs clk = due_keys d c rs clk"
proof -
  have "due d' = due d"
    using assms by (rule due_cong)
  then show ?thesis
    by (induction rs arbitrary: clk) simp_all
qed

lemma confirm_keys_empty: "map (confirm_keys {}) rs = rs"
  by (induction rs) (simp_all add: confirm_keys_def)

lemma due_keys_iff:
  "k \<in> due_keys d c rs clk \<longleftrightarrow>
     (\<exists>n < length rs. due d c (rs ! n) (clk n) \<and> k = (c, ij_joined_user_id (rs ! n)))"
proof (induction rs arbitrary: clk)
  case Nil
  then show ?case by simp
next
  case (Cons r rs)
  have "(\<exists>n < length (r # rs). due d c ((r # rs) ! n) (clk n)
        \<and> k = (c, ij_joined_user_id ((r # rs) ! n)))
      \<longleftrightarrow> (due d c r (clk 0) \<and> k = (c, ij_joined_user_id r))
        \<or> (\<exists>n < length rs. due d c (rs ! n) (later clk n)
            \<and> k = (c, ij_joined_user_id (rs ! n)))"
    by (auto simp: later_def less_Suc_eq_0_disj)
  with Cons.IH [of "later clk"] show ?case by auto
qed

lemma confirm_candidate_not_due: "\<not> due d c r t \<Longrightarrow> confirm_candidate d c r t = d"
  by (auto simp: confirm_candidate_def due_def messages_of_def
      INVITE_CONFIRM_AFTER_SECONDS_def INVITE_CONFIRM_MIN_MESSAGES_def)

lemma invite_joins_confirm_candidate:
  "invite_joins (confirm_candidate d c r t) =
     map (confirm_keys (if due d c r t then {(c, ij_joined_user_id r)} else {})) (invite_joins d)"
proof (cases "due d c r t")
  case False
  then show ?thesis
    by (simp add: confirm_candidate_not_due confirm_keys_empty)
next
  case True
  then have "invite_joins (confirm_candidate d c r t) =
      invite_joins (set_confirmed d c (ij_joined_user_id r))"
    by (auto simp: confirm_candidate_def due_def messages_of_def Let_def tables_update_stats
        INVITE_CONFIRM_AFTER_SECONDS_def INVITE_CONFIRM_MIN_MESSAGES_def split: option.splits)
  with True show ?thesis
    by (simp add: set_confirmed_def confirm_keys_def)
qed

lemma confirm_keys_twice:
  "confirm_keys K (confirm_keys L r) = confirm_keys (L \<union> K) r"
  by (simp add: confirm_keys_def ij_key_def)

lemma invite_joins_confirm_loop:
  "invite_joins (confirm_loop d c rs clk) =
     map (confirm_keys (due_keys d c rs clk)) (invite_joins d)"
proof (induction rs arbitrary: d clk)
  case Nil
  then show ?case by (simp add: confirm_keys_empty)
next
  case (Cons r rs)
  let ?d1 = "confirm_candidate d c r (clk 0)"
  have "due_keys ?d1 c rs (later clk) = due_keys d c rs (later clk)"
    by (rule due_keys_cong) (simp add: views_confirm_candidate)
  with Cons.IH [of ?d1 "later clk"] show ?case
    by (simp add: invite_joins_confirm_candidate confirm_keys_twice comp_def)
qed

lemma confirm_loop_none_due:
  "(\<And>n. n < length rs \<Longrightarrow> \<not> due d c (rs ! n) (clk n)) \<Longrightarrow> confirm_loop d c rs clk = d"
proof (induction rs arbitrary: clk)
  case Nil
  then show ?case by simp
next
  case (Cons r rs)
  from Cons.prems [of 0] have first: "\<not> due d c r (clk 0)" by simp
  have "\<not> due d c (rs ! n) (later clk n)" if "n < length rs" for n
    using Cons.prems [of "Suc n"] that by (simp add: later_def)
  with Cons.IH [of "later clk"] first show ?case
    by (simp add: confirm_candidate_not_due)
qed

lemma ij_key_confirm_keys: "ij_key (confirm_keys K r) = ij_key r"
  by (simp add: confirm_keys_def ij_key_def)

lemma confirmed_confirm_keys: "ij_confirmed r \<Longrightarrow> confirm_keys K r = r"
  by (simp add: confirm_keys_def)

lemma invite_joins_confirmation_checks:
  "invite_joins (confirmation_checks d c clk) =
     map (confirm_keys (due_keys d c (candidates d c) clk)) (invite_joins d)"
  by (simp add: confirmation_checks_def invite_joins_confirm_loop)

lemma fresh_rows_Nil: "fresh_rows old []"
  by (simp add: fresh_rows_def)

lemma fresh_rows_append:
  "fresh_rows old r1 \<Longrightarrow> fresh_rows (old @ r1) r2 \<Longrightarrow> fresh_rows old (r1 @ r2)"
  by (auto simp: fresh_rows_def)

lemma fresh_rows_distinct:
  "fresh_rows old rows \<Longrightarrow> distinct (map ij_key old) \<Longrightarrow> distinct (map ij_key (old @ rows))"
  by (auto simp: fresh_rows_def)

text \<open>What the handlers do to \<open>invite_joins\<close>: rows are appended, flags are set.\<close>

lemma invite_joins_insert_invite_join:
  "\<exists>rows. invite_joins (insert_invite_join d c j i t) = invite_joins d @ rows
     \<and> fresh_rows (invite_joins d) rows"
  by (auto simp: insert_invite_join_def ij_key_def fresh_rows_def)

lemma invite_joins_join_loop:
  "\<exists>rows. invite_joins (join_loop d c l js clk) = invite_joins d @ rows
     \<and> fresh_rows (invite_joins d) rows"
proof (induction js arbitrary: d clk)
  case Nil
  then show ?case by (simp add: fresh_rows_Nil)
next
  case (Cons j js)
  let ?d1 = "record_join d c l j (clk 0)"
  obtain r1 where r1: "invite_joins ?d1 = invite_joins d @ r1" "fresh_rows (invite_joins d) r1"
    using invite_joins_insert_invite_join [of d c "user_id j" "resolve_inviter d c l" "clk 0"]
    by (auto simp: invite_joins_record_join)
  obtain r2 where r2: "invite_joins (join_loop ?d1 c l js (later clk)) = invite_joins ?d1 @ r2"
    "fresh_rows (invite_joins ?d1) r2"
    using Cons.IH [of ?d1 "later clk"] by blast
  from r1 r2 have "invite_joins (join_loop d c l (j # js) clk) = invite_joins d @ (r1 @ r2)
    \<and> fresh_rows (invite_joins d) (r1 @ r2)"
    by (simp add: fresh_rows_append)
  then show ?case by blast
qed

lemma invite_joins_on_message:
  "\<exists>K rows. invite_joins (on_message d c clk) = map (confirm_keys K) (invite_joins d) @ rows
     \<and> fresh_rows (invite_joins d) rows"
proof (cases d c clk rule: on_message_cases)
  case joins
  with invite_joins_join_loop [of d "chat_id c" "invite_link (msg c)" "new_chat_members (msg c)" clk]
  obtain rows where "invite_joins (on_message d c clk) = map (confirm_keys {}) (invite_joins d) @ rows
     \<and> fresh_rows (invite_joins d) rows"
    by (auto simp: confirm_keys_empty)
  then show ?thesis by blast
next
  case dropped
  then have "invite_joins (on_message d c clk) = map (confirm_keys {}) (invite_joins d) @ []
     \<and> fresh_rows (invite_joins d) []"
    by (simp add: confirm_keys_empty fresh_rows_Nil)
  then show ?thesis by blast
next
  case (rejected u)
  then have "invite_joins (on_message d c clk) = map (confirm_keys {}) (invite_joins d) @ []
     \<and> fresh_rows (invite_joins d) []"
    by (simp add: confirm_keys_empty tables_after_counter fresh_rows_Nil)
  then show ?thesis by blast
next
  case (checked u)
  let ?K = "due_keys (after_counter d c u) (chat_id c)
    (candidates (after_counter d c u) (chat_id c)) clk"
  from checked
  have "invite_joins (on_message d c clk) = map (confirm_keys ?K) (invite_joins d) @ []
     \<and> fresh_rows (invite_joins d) []"
    by (simp add: invite_joins_confirmation_checks tables_after_counter fresh_rows_Nil)
  then show ?thesis by blast
next
  case (granted u target)
  let ?g = "grant (after_counter d c u) (chat_id c) u target (clk 0)"
  let ?K = "due_keys ?g (chat_id c) (candidates ?g (chat_id c)) (later clk)"
  from granted
  have "invite_joins (on_message d c clk) = map (confirm_keys ?K) (invite_joins d) @ []
     \<and> fresh_rows (invite_joins d) []"
    by (simp add: invite_joins_confirmation_checks tables_after_counter tables_grant
        fresh_rows_Nil)
  then show ?thesis by blast
qed

lemma invite_joins_handle:
  "\<exists>K rows. invite_joins (handle d x) = map (confirm_keys K) (invite_joins d) @ rows
     \<and> fresh_rows (invite_joins d) rows"
proof (cases x)
  case (Message c clk)
  with invite_joins_on_message [of d c clk] show ?thesis by simp
next
  case (Me c u)
  then have "invite_joins (handle d x) = map (confirm_keys {}) (invite_joins d) @ []
     \<and> fresh_rows (invite_joins d) []"
    by (simp add: me_def Let_def tables_upsertUser confirm_keys_empty fresh_rows_Nil
        split: option.splits)
  then show ?thesis by blast
next
  case (Leaderboard c)
  then have "invite_joins (handle d x) = map (confirm_keys {}) (invite_joins d) @ []
     \<and> fresh_rows (invite_joins d) []"
    by (simp add: leaderboard_def confirm_keys_empty fresh_rows_Nil)
  then show ?thesis by blast
next
  case (Myinvite c u created)
  have "invite_joins (store (myinvite d c u created)) = invite_joins d"
    by (auto simp: myinvite_def Let_def insert_invite_link_def tables_upsertUser
        split: option.splits sum.splits)
  with Myinvite
  have "invite_joins (handle d x) = map (confirm_keys {}) (invite_joins d) @ []
     \<and> fresh_rows (invite_joins d) []"
    by (simp add: confirm_keys_empty fresh_rows_Nil)
  then show ?thesis by blast
qed

lemma ij_keys_handle:
  assumes "distinct (map ij_key (invite_joins d))"
  shows "distinct (map ij_key (invite_joins (handle d x)))"
proof -
  obtain K rows where
    rows: "invite_joins (handle d x) = map (confirm_keys K) (invite_joins d) @ rows"
    and "fresh_rows (invite_joins d) rows"
    using invite_joins_handle by blast
  with assms have "distinct (map ij_key (invite_joins d @ rows))"
    by (intro fresh_rows_distinct)
  moreover have "map ij_key (invite_joins (handle d x)) = map ij_key (invite_joins d @ rows)"
    by (simp add: rows ij_key_confirm_keys)
  ultimately show ?thesis by simp
qed

lemma ij_keys_run:
  "distinct (map ij_key (invite_joins d)) \<Longrightarrow> distinct (map ij_key (invite_joins (run d xs)))"
  by (induction xs arbitrary: d) (simp_all add: ij_keys_handle)

lemma confirmed_stays_handle:
  assumes "r \<in> set (invite_joins d)" and "ij_confirmed r"
  shows "r \<in> set (invite_joins (handle d x))"
proof -
  obtain K rows where
    "invite_joins (handle d x) = map (confirm_keys K) (invite_joins d) @ rows"
    using invite_joins_handle by blast
  moreover from assms have "r \<in> confirm_keys K ` set (invite_joins d)"
    using confirmed_confirm_keys [of r K] by force
  ultimately show ?thesis by simp
qed

lemma confirmed_stays_run:
  "r \<in> set (invite_joins d) \<Longrightarrow> ij_confirmed r \<Longrightarrow> r \<in> set (invite_joins (run d xs))"
  by (induction xs arbitrary: d) (simp_all add: confirmed_stays_handle)

lemma candidates_rows:
  "r \<in> set (candidates d c) \<Longrightarrow>
     r \<in> set (invite_joins d) \<and> ij_key r = (c, ij_joined_user_id r) \<and> \<not> ij_confirmed r"
  by (auto simp: candidates_def is_candidate_def ij_key_def dest: in_set_takeD)

lemma candidates_distinct:
  "distinct (map ij_key (invite_joins d)) \<Longrightarrow> distinct (candidates d c)"
  by (simp add: candidates_def distinct_map)

lemma same_key_same_row:
  assumes "distinct (map ij_key (invite_joins d))"
    and "r \<in> set (invite_joins d)" and "r' \<in> set (invite_joins d)" and "ij_key r = ij_key r'"
  shows "r = r'"
  using assms by (auto simp: distinct_map dest: inj_onD)

text \<open>With distinct keys, the keys a sweep confirms are those of its due candidates.\<close>

lemma due_keys_candidates:
  assumes "distinct (map ij_key (invite_joins d))" and "r \<in> set (invite_joins d)"
  shows "ij_key r \<in> due_keys d c (candidates d c) clk \<longleftrightarrow>
     (\<exists>n < length (candidates d c). candidates d c ! n = r \<and> due d c r (clk n))"
proof
  assume "ij_key r \<in> due_keys d c (candidates d c) clk"
  then obtain n where n: "n < length (candidates d c)"
    and due: "due d c (candidates d c ! n) (clk n)"
    and key: "ij_key r = (c, ij_joined_user_id (candidates d c ! n))"
    by (auto simp: due_keys_iff)
  from n have "candidates d c ! n \<in> set (candidates d c)" by simp
  with key have "candidates d c ! n \<in> set (invite_joins d)"
    and "ij_key (candidates d c ! n) = ij_key r"
    by (simp_all add: candidates_rows)
  with assms have "candidates d c ! n = r"
    by (intro same_key_same_row [of d])
  with n due show "\<exists>n < length (candidates d c). candidates d c ! n = r \<and> due d c r (clk n)"
    by auto
next
  assume "\<exists>n < length (candidates d c). candidates d c ! n = r \<and> due d c r (clk n)"
  then obtain n where n: "n < length (candidates d c)" and r: "candidates d c ! n = r"
    and due: "due d c r (clk n)"
    by blast
  from n r have "r \<in> set (candidates d c)" by auto
  then have "ij_key r = (c, ij_joined_user_id r)"
    by (simp add: candidates_rows)
  with n r due show "ij_key r \<in> due_keys d c (candidates d c) clk"
    by (auto simp: due_keys_iff)
qed

lemma sweep_only_if_due:
  assumes pk: "distinct (map ij_key (invite_joins d))"
    and r: "r \<in> set (invite_joins d)" and pending: "\<not> ij_confirmed r"
    and flagged: "r\<lparr>ij_confirmed := True\<rparr> \<in> set (invite_joins (confirmation_checks d c clk))"
  shows "\<exists>n < length (candidates d c). candidates d c ! n = r \<and> due d c r (clk n)"
proof -
  let ?K = "due_keys d c (candidates d c) clk"
  from flagged obtain r0 where r0: "r0 \<in> set (invite_joins d)"
    and eq: "confirm_keys ?K r0 = r\<lparr>ij_confirmed := True\<rparr>"
    by (auto simp: invite_joins_confirmation_checks)
  have "ij_key r0 = ij_key (confirm_keys ?K r0)"
    by (simp add: ij_key_confirm_keys)
  also have "\<dots> = ij_key r"
    by (simp add: eq ij_key_def)
  finally have "r0 = r"
    using pk r0 r by (intro same_key_same_row [of d])
  have "ij_key r \<in> ?K"
  proof (rule ccontr)
    assume "ij_key r \<notin> ?K"
    with eq \<open>r0 = r\<close> have "r = r\<lparr>ij_confirmed := True\<rparr>"
      by (simp add: confirm_keys_def)
    then have "ij_confirmed r = ij_confirmed (r\<lparr>ij_confirmed := True\<rparr>)"
      by (rule arg_cong)
    with pending show False by simp
  qed
  with pk r show ?thesis
    by (simp add: due_keys_candidates)
qed

lemma sweep_skips_not_due:
  assumes pk: "distinct (map ij_key (invite_joins d))"
    and n: "n < length (candidates d c)" and not_due: "\<not> due d c (candidates d c ! n) (clk n)"
  shows "candidates d c ! n \<in> set (invite_joins (confirmation_checks d c clk))
    \<and> \<not> ij_confirmed (candidates d c ! n)"
proof -
  let ?r = "candidates d c ! n"
  let ?K = "due_keys d c (candidates d c) clk"
  from n have cand: "?r \<in> set (candidates d c)" by simp
  then have r: "?r \<in> set (invite_joins d)" and pending: "\<not> ij_confirmed ?r"
    by (simp_all add: candidates_rows)
  have "ij_key ?r \<notin> ?K"
  proof
    assume "ij_key ?r \<in> ?K"
    with pk r obtain m where m: "m < length (candidates d c)"
      and same: "candidates d c ! m = ?r" and due: "due d c ?r (clk m)"
      by (auto simp: due_keys_candidates)
    from pk have "distinct (candidates d c)" by (rule candidates_distinct)
    with m n same have "m = n"
      by (simp add: nth_eq_iff_index_eq)
    with due not_due show False by simp
  qed
  then have "confirm_keys ?K ?r = ?r"
    by (simp add: confirm_keys_def)
  with r have "?r \<in> confirm_keys ?K ` set (invite_joins d)"
    by force
  with pending show ?thesis
    by (simp add: invite_joins_confirmation_checks)
qed

lemma sweep_nothing_due:
  assumes "\<forall>n < length (candidates d c). \<not> due d c (candidates d c ! n) (clk n)"
  shows "confirmation_checks d c clk = d"
  using assms by (simp add: confirmation_checks_def confirm_loop_none_due)


text \<open>
  Claim C2. A row of \<open>invite_joins\<close> that is confirmed stays in the table as it is
  through every run of updates: the flag never goes back, so it is set at most once. In
  a store with distinct keys, a confirmation sweep at the readings \<open>clk\<close> sets the
  flag of a pending row only if the row is one of its candidates (the five pending rows
  of the chat with the least \<open>joined_user_id\<close>) and, at that candidate's reading of
  the clock, at least 86400 seconds have passed since the join and the joined user has
  at least 3 messages. A candidate for which one of the two
  fails is still in the table afterwards, pending and unchanged; when this is so for
  every candidate the sweep changes nothing at all. Every store reached from the empty
  one has distinct keys.
\<close>

theorem join_confirmation:
  assumes "distinct (map ij_key (invite_joins d))"
  shows "(r \<in> set (invite_joins e) \<and> ij_confirmed r \<longrightarrow> r \<in> set (invite_joins (run e xs)))
    \<and> (r \<in> set (invite_joins d) \<and> \<not> ij_confirmed r
        \<and> r\<lparr>ij_confirmed := True\<rparr> \<in> set (invite_joins (confirmation_checks d c clk)) \<longrightarrow>
        (\<exists>n < length (candidates d c). candidates d c ! n = r \<and> due d c r (clk n)))
    \<and> (n < length (candidates d c) \<and> \<not> due d c (candidates d c ! n) (clk n) \<longrightarrow>
        candidates d c ! n \<in> set (invite_joins (confirmation_checks d c clk))
        \<and> \<not> ij_confirmed (candidates d c ! n))
    \<and> ((\<forall>n < length (candidates d c). \<not> due d c (candidates d c ! n) (clk n)) \<longrightarrow>
        confirmation_checks d c clk = d)
    \<and> distinct (map ij_key (invite_joins (run empty_db ys)))"
proof -
  have "distinct (map ij_key (invite_joins (run empty_db ys)))"
    by (rule ij_keys_run) (simp add: empty_db_def)
  then show ?thesis
    using confirmed_stays_run [of r e xs] sweep_only_if_due [OF assms, of r c clk]
      sweep_skips_not_due [OF assms, of n c clk] sweep_nothing_due [of d c clk]
    by blast
qed

theorem join_confirmation_witness:
  "distinct (map ij_key (invite_joins pending_db))
   \<and> candidates pending_db 1 = [carol_row]
   \<and> due pending_db 1 carol_row 90000
   \<and> invite_joins (confirmation_checks pending_db 1 (at_time 90000))
       = [carol_row\<lparr>ij_confirmed := True\<rparr>]
   \<and> invite_joins (run (confirmation_checks pending_db 1 (at_time 90000))
        [Message (says bob [104, 105] None) (at_time 90001)])
       = [carol_row\<lparr>ij_confirmed := True\<rparr>]
   \<and> \<not> due pending_db 1 carol_row 86399
   \<and> confirmation_checks pending_db 1 (at_time 86399) = pending_db
   \<and> distinct (map ij_key (invite_joins six_joins_db))
   \<and> map ij_joined_user_id (candidates six_joins_db 1) = [15, 16, 17, 18, 19]
   \<and> map ij_confirmed (invite_joins (confirmation_checks six_joins_db 1 (at_time 90000)))
       = [False, False, False, False, False, True]
   \<and> candidates six_joins_db 1 ! 1
       \<in> set (invite_joins (confirmation_checks six_joins_db 1 (at_time 90000)))"
proof -
  have pk: "distinct (map ij_key (invite_joins pending_db))"
    by (simp add: pending_db_def empty_db_def)
  have cands: "candidates pending_db 1 = [carol_row]"
    by (simp add: pending_db_def empty_db_def candidates_def is_candidate_def carol_row_def)
  have due: "due pending_db 1 carol_row 90000" and early: "\<not> due pending_db 1 carol_row 86399"
    by (simp_all add: due_def carol_row_def messages_of_def getStats_def pending_db_def
        empty_db_def zero_stats_def)
  have swept: "invite_joins (confirmation_checks pending_db 1 (at_time 90000))
      = [carol_row\<lparr>ij_confirmed := True\<rparr>]"
    by (simp add: carol_row_def eval_defs)
  have after: "invite_joins (run (confirmation_checks pending_db 1 (at_time 90000))
        [Message (says bob [104, 105] None) (at_time 90001)])
       = [carol_row\<lparr>ij_confirmed := True\<rparr>]"
    by (simp add: carol_row_def eval_defs)
  from join_confirmation [OF pk, where r = "carol_row\<lparr>ij_confirmed := True\<rparr>"
      and e = "confirmation_checks pending_db 1 (at_time 90000)"
      and xs = "[Message (says bob [104, 105] None) (at_time 90001)]"
      and c = 1 and clk = "at_time 86399" and n = 0 and ys = "[]"] cands early
  have unchanged: "confirmation_checks pending_db 1 (at_time 86399) = pending_db"
    by (simp add: at_time_def)
  have pk6: "distinct (map ij_key (invite_joins six_joins_db))"
    by (simp add: six_joins_db_def empty_db_def ij_key_def)
  have cands6: "map ij_joined_user_id (candidates six_joins_db 1) = [15, 16, 17, 18, 19]"
    by code_simp
  have swept6: "map ij_confirmed
      (invite_joins (confirmation_checks six_joins_db 1 (at_time 90000)))
      = [False, False, False, False, False, True]"
    by code_simp
  have len6: "1 < length (candidates six_joins_db 1)"
    by code_simp
  have late6: "\<not> due six_joins_db 1 (candidates six_joins_db 1 ! 1) (at_time 90000 1)"
    by code_simp
  from join_confirmation [OF pk6, where r = carol_row and e = six_joins_db and xs = "[]"
      and c = 1 and clk = "at_time 90000" and n = 1 and ys = "[]"] len6 late6
  have kept6: "candidates six_joins_db 1 ! 1
      \<in> set (invite_joins (confirmation_checks six_joins_db 1 (at_time 90000)))"
    by blast
  from pk cands due early swept after unchanged pk6 cands6 swept6 kept6
  show ?thesis by blast
qed

subsection \<open>Karma grants and the cooldown\<close>

lemma karma_views_grant:
  assumes "has_stats d (c, user_id u)" and "user_id v \<noteq> 0" and "user_id v \<noteq> user_id u"
  shows "karma_of (grant d c u v t) = (karma_of d)((c, user_id v) := karma_of d (c, user_id v) + 1)"
    and "karma_given_of (grant d c u v t) =
      (karma_given_of d)((c, user_id u) := karma_given_of d (c, user_id u) + 1)"
  using assms
  by (auto simp: fun_eq_iff karma_of_def karma_given_of_def getStats_grant add_karma_def
      add_karma_given_def)

text \<open>The store after a message that grants karma.\<close>

lemma on_message_grant_effect:
  assumes "new_chat_members (msg c) = []" and "from_user c = Some u" and "user_id u \<noteq> 0"
    and "karma_trigger (msg c)" and "reply_to_message_from (msg c) = Some target"
    and "user_id target \<noteq> 0" and "user_id target \<noteq> user_id u"
    and "\<not> cooling d (chat_id c, user_id u) (clk 0)"
  shows "karma_cooldowns (on_message d c clk) =
      (karma_cooldowns d)((chat_id c, user_id u) \<mapsto> clk 0)"
    and "karma_of (on_message d c clk) =
      (karma_of d)((chat_id c, user_id target) := karma_of d (chat_id c, user_id target) + 1)"
    and "karma_given_of (on_message d c clk) =
      (karma_given_of d)((chat_id c, user_id u) := karma_given_of d (chat_id c, user_id u) + 1)"
proof -
  let ?a = "after_counter d c u"
  have step: "on_message d c clk =
      confirmation_checks (grant ?a (chat_id c) u target (clk 0)) (chat_id c) (later clk)"
    using assms by (rule on_message_granted)
  have row: "has_stats ?a (chat_id c, user_id u)"
    using assms(3) by (simp add: has_stats_after_counter)
  show "karma_cooldowns (on_message d c clk) =
      (karma_cooldowns d)((chat_id c, user_id u) \<mapsto> clk 0)"
    by (simp add: step tables_confirmation_checks tables_grant tables_after_counter)
  show "karma_of (on_message d c clk) =
      (karma_of d)((chat_id c, user_id target) := karma_of d (chat_id c, user_id target) + 1)"
    using karma_views_grant(1) [OF row assms(6) assms(7), of "clk 0"]
    by (simp add: step views_confirmation_checks views_after_counter)
  show "karma_given_of (on_message d c clk) =
      (karma_given_of d)((chat_id c, user_id u) := karma_given_of d (chat_id c, user_id u) + 1)"
    using karma_views_grant(2) [OF row assms(6) assms(7), of "clk 0"]
    by (simp add: step views_confirmation_checks views_after_counter)
qed

text \<open>
  Every run of the message handler either leaves karma and the cooldowns alone or is a
  grant: one giver who is not cooling down, one recipient, one reading of the clock.
\<close>

lemma on_message_karma:
  "(karma_of (on_message d c clk) = karma_of d
      \<and> karma_given_of (on_message d c clk) = karma_given_of d
      \<and> karma_cooldowns (on_message d c clk) = karma_cooldowns d)
   \<or> (\<exists>g r t. g \<noteq> r \<and> \<not> cooling d g t
      \<and> karma_of (on_message d c clk) = (karma_of d)(r := karma_of d r + 1)
      \<and> karma_given_of (on_message d c clk) = (karma_given_of d)(g := karma_given_of d g + 1)
      \<and> karma_cooldowns (on_message d c clk) = (karma_cooldowns d)(g \<mapsto> t))"
proof (cases d c clk rule: on_message_cases)
  case joins
  then show ?thesis by (simp add: views_join_loop tables_join_loop)
next
  case dropped
  then show ?thesis by simp
next
  case (rejected u)
  then show ?thesis by (simp add: views_after_counter tables_after_counter)
next
  case (checked u)
  then show ?thesis
    by (simp add: views_confirmation_checks tables_confirmation_checks views_after_counter
        tables_after_counter)
next
  case (granted u target)
  let ?g = "(chat_id c, user_id u)" and ?r = "(chat_id c, user_id target)"
  from granted have "?g \<noteq> ?r" by simp
  moreover have "\<not> cooling d ?g (clk 0)" by (rule granted)
  moreover have "karma_of (on_message d c clk) = (karma_of d)(?r := karma_of d ?r + 1)"
    and "karma_given_of (on_message d c clk) = (karma_given_of d)(?g := karma_given_of d ?g + 1)"
    and "karma_cooldowns (on_message d c clk) = (karma_cooldowns d)(?g \<mapsto> clk 0)"
    using granted(1-8) by (rule on_message_grant_effect)+
  ultimately show ?thesis by blast
qed

lemma handle_karma:
  "(karma_of (handle d x) = karma_of d
      \<and> karma_given_of (handle d x) = karma_given_of d
      \<and> karma_cooldowns (handle d x) = karma_cooldowns d)
   \<or> (\<exists>g r t. g \<noteq> r \<and> \<not> cooling d g t
      \<and> karma_of (handle d x) = (karma_of d)(r := karma_of d r + 1)
      \<and> karma_given_of (handle d x) = (karma_given_of d)(g := karma_given_of d g + 1)
      \<and> karma_cooldowns (handle d x) = (karma_cooldowns d)(g \<mapsto> t))"
proof (cases x)
  case (Message c clk)
  with on_message_karma [of d c clk] show ?thesis by simp
next
  case (Me c u)
  then show ?thesis
    by (simp add: me_def Let_def views_upsertUser tables_upsertUser split: option.splits)
next
  case (Leaderboard c)
  then show ?thesis by (simp add: leaderboard_def)
next
  case (Myinvite c u created)
  have "getStats (store (myinvite d c u created)) = getStats d"
    and "karma_cooldowns (store (myinvite d c u created)) = karma_cooldowns d"
    by (auto simp: myinvite_def Let_def insert_invite_link_def getStats_upsertUser
        getStats_other_tables tables_upsertUser split: option.splits sum.splits)
  with Myinvite show ?thesis
    by (simp add: fun_eq_iff karma_of_def karma_given_of_def)
qed

text \<open>
  The cooldown row of a giver moves only with a grant of that giver, and then by at
  least 30 seconds.
\<close>

lemma cooldown_handle:
  assumes "karma_cooldowns d k = Some t0"
  shows "\<exists>t1. karma_cooldowns (handle d x) k = Some t1
    \<and> karma_given_of d k \<le> karma_given_of (handle d x) k
    \<and> 30 * (karma_given_of (handle d x) k - karma_given_of d k) \<le> t1 - t0"
  using handle_karma [of d x] assms
  by (elim disjE exE) (auto simp: cooling_def)

lemma cooldown_run:
  assumes "karma_cooldowns d k = Some t0"
  shows "\<exists>t1. karma_cooldowns (run d xs) k = Some t1
    \<and> karma_given_of d k \<le> karma_given_of (run d xs) k
    \<and> 30 * (karma_given_of (run d xs) k - karma_given_of d k) \<le> t1 - t0"
  using assms
proof (induction xs arbitrary: d t0)
  case Nil
  then show ?case by simp
next
  case (Cons x xs)
  from cooldown_handle [OF Cons.prems, of x]
  obtain t1 where t1: "karma_cooldowns (handle d x) k = Some t1"
    and up1: "karma_given_of d k \<le> karma_given_of (handle d x) k"
    and far1: "30 * (karma_given_of (handle d x) k - karma_given_of d k) \<le> t1 - t0"
    by blast
  from Cons.IH [OF t1]
  obtain t2 where t2: "karma_cooldowns (run (handle d x) xs) k = Some t2"
    and up2: "karma_given_of (handle d x) k \<le> karma_given_of (run (handle d x) xs) k"
    and far2: "30 * (karma_given_of (run (handle d x) xs) k - karma_given_of (handle d x) k)
      \<le> t2 - t1"
    by blast
  from up1 up2 far1 far2
  have "karma_given_of d k \<le> karma_given_of (run (handle d x) xs) k
    \<and> 30 * (karma_given_of (run (handle d x) xs) k - karma_given_of d k) \<le> t2 - t0"
    by simp
  with t2 show ?case by simp
qed

lemma next_grant_after_window:
  assumes "karma_cooldowns d k = Some t0" and "\<not> cooling (run d xs) k t"
  shows "30 \<le> t - t0"
proof -
  from cooldown_run [OF assms(1), of xs]
  obtain t1 where "karma_cooldowns (run d xs) k = Some t1"
    and "karma_given_of d k \<le> karma_given_of (run d xs) k"
    and "30 * (karma_given_of (run d xs) k - karma_given_of d k) \<le> t1 - t0"
    by blast
  with assms(2) show ?thesis
    by (simp add: cooling_def)
qed


text \<open>
  Claim C1. Take a message with a sender \<open>u\<close> and no new members whose trimmed text is
  \<open>"+"\<close>, sent in reply to a message of \<open>target\<close>, both with non-zero ids that
  differ. If \<open>u\<close> has a cooldown row in the chat and less than 30 seconds lie between it
  and the reading \<open>clk 0\<close>, the handler stops after the upsert and the message counter:
  no \<open>karma\<close>, \<open>karma_given\<close>, invite counter or cooldown row changes, whoever the
  target is. Otherwise the handler sets the cooldown row of \<open>u\<close> to \<open>clk 0\<close>, adds 1
  to the \<open>karma\<close> of \<open>target\<close> and 1 to the \<open>karma_given\<close> of \<open>u\<close>, and
  changes no other user's \<open>karma\<close> or \<open>karma_given\<close>.

  For every update from every store, either no \<open>karma\<close> and no \<open>karma_given\<close>
  changes, or one user's \<open>karma\<close> and another user's \<open>karma_given\<close> go up by 1
  together. When a giver's cooldown row holds \<open>t0\<close>, after any run of updates it holds
  a time that lies at least 30 seconds past \<open>t0\<close> for each grant the giver made in the
  run, and any reading \<open>t\<close> at which the giver is then not cooling down is at least 30
  seconds past \<open>t0\<close>: no two grants of a giver fall in one window of 30 seconds.
\<close>

theorem karma_grant_and_cooldown:
  assumes "new_chat_members (msg c) = []" and "from_user c = Some u" and "user_id u \<noteq> 0"
    and "karma_trigger (msg c)" and "reply_to_message_from (msg c) = Some target"
    and "user_id target \<noteq> 0" and "user_id target \<noteq> user_id u"
  shows "(if cooling d (chat_id c, user_id u) (clk 0)
          then on_message d c clk = after_counter d c u
             \<and> karma_of (on_message d c clk) = karma_of d
             \<and> karma_given_of (on_message d c clk) = karma_given_of d
             \<and> pending_of (on_message d c clk) = pending_of d
             \<and> confirmed_of (on_message d c clk) = confirmed_of d
             \<and> karma_cooldowns (on_message d c clk) = karma_cooldowns d
          else karma_cooldowns (on_message d c clk) =
                 (karma_cooldowns d)((chat_id c, user_id u) \<mapsto> clk 0)
             \<and> karma_of (on_message d c clk) =
                 (karma_of d)((chat_id c, user_id target) :=
                    karma_of d (chat_id c, user_id target) + 1)
             \<and> karma_given_of (on_message d c clk) =
                 (karma_given_of d)((chat_id c, user_id u) :=
                    karma_given_of d (chat_id c, user_id u) + 1))
    \<and> ((karma_of (handle e x) = karma_of e \<and> karma_given_of (handle e x) = karma_given_of e)
       \<or> (\<exists>g r. g \<noteq> r \<and> karma_of (handle e x) = (karma_of e)(r := karma_of e r + 1)
            \<and> karma_given_of (handle e x) = (karma_given_of e)(g := karma_given_of e g + 1)))
    \<and> (karma_cooldowns e k = Some t0 \<longrightarrow>
         (\<exists>t1. karma_cooldowns (run e xs) k = Some t1
            \<and> 30 * (karma_given_of (run e xs) k - karma_given_of e k) \<le> t1 - t0))
    \<and> (karma_cooldowns e k = Some t0 \<and> \<not> cooling (run e xs) k t \<longrightarrow> 30 \<le> t - t0)"
proof -
  have one: "if cooling d (chat_id c, user_id u) (clk 0)
          then on_message d c clk = after_counter d c u
             \<and> karma_of (on_message d c clk) = karma_of d
             \<and> karma_given_of (on_message d c clk) = karma_given_of d
             \<and> pending_of (on_message d c clk) = pending_of d
             \<and> confirmed_of (on_message d c clk) = confirmed_of d
             \<and> karma_cooldowns (on_message d c clk) = karma_cooldowns d
          else karma_cooldowns (on_message d c clk) =
                 (karma_cooldowns d)((chat_id c, user_id u) \<mapsto> clk 0)
             \<and> karma_of (on_message d c clk) =
                 (karma_of d)((chat_id c, user_id target) :=
                    karma_of d (chat_id c, user_id target) + 1)
             \<and> karma_given_of (on_message d c clk) =
                 (karma_given_of d)((chat_id c, user_id u) :=
                    karma_given_of d (chat_id c, user_id u) + 1)"
  proof (cases "cooling d (chat_id c, user_id u) (clk 0)")
    case True
    with assms have "on_message d c clk = after_counter d c u"
      by (intro on_message_rejected [of c u target]) auto
    with True show ?thesis
      by (simp add: views_after_counter tables_after_counter)
  next
    case False
    have "karma_cooldowns (on_message d c clk) =
        (karma_cooldowns d)((chat_id c, user_id u) \<mapsto> clk 0)"
      and "karma_of (on_message d c clk) =
        (karma_of d)((chat_id c, user_id target) := karma_of d (chat_id c, user_id target) + 1)"
      and "karma_given_of (on_message d c clk) =
        (karma_given_of d)((chat_id c, user_id u) := karma_given_of d (chat_id c, user_id u) + 1)"
      using assms False by (rule on_message_grant_effect)+
    with False show ?thesis by simp
  qed
  have two: "(karma_of (handle e x) = karma_of e \<and> karma_given_of (handle e x) = karma_given_of e)
       \<or> (\<exists>g r. g \<noteq> r \<and> karma_of (handle e x) = (karma_of e)(r := karma_of e r + 1)
            \<and> karma_given_of (handle e x) = (karma_given_of e)(g := karma_given_of e g + 1))"
    using handle_karma [of e x] by blast
  have three: "karma_cooldowns e k = Some t0 \<longrightarrow>
         (\<exists>t1. karma_cooldowns (run e xs) k = Some t1
            \<and> 30 * (karma_given_of (run e xs) k - karma_given_of e k) \<le> t1 - t0)"
    using cooldown_run [of e k t0 xs] by blast
  have four: "karma_cooldowns e k = Some t0 \<and> \<not> cooling (run e xs) k t \<longrightarrow> 30 \<le> t - t0"
    using next_grant_after_window [of e k t0 xs t] by blast
  from one two three four show ?thesis by (intro conjI)
qed


theorem karma_grant_and_cooldown_witness:
  "karma_trigger (msg (says bob plus_sign (Some alice)))
   \<and> cooling cooling_db (1, 8) 90000
   \<and> karma_of (on_message cooling_db (says bob plus_sign (Some alice)) (at_time 90000)) (1, 7)
       = 0
   \<and> karma_cooldowns (on_message cooling_db (says bob plus_sign (Some alice)) (at_time 90000))
        (1, 8) = Some 89990
   \<and> cooling cooling_db (1, 8) 90030 = False
   \<and> karma_of (on_message cooling_db (says bob plus_sign (Some alice)) (at_time 90030)) (1, 7)
       = 1
   \<and> karma_given_of (on_message cooling_db (says bob plus_sign (Some alice)) (at_time 90030))
        (1, 8) = 1
   \<and> karma_cooldowns (on_message cooling_db (says bob plus_sign (Some alice)) (at_time 90030))
        (1, 8) = Some 90030"
proof -
  let ?c = "says bob plus_sign (Some alice)"
  have a: "new_chat_members (msg ?c) = []" "from_user ?c = Some bob" "user_id bob \<noteq> 0"
    "karma_trigger (msg ?c)" "reply_to_message_from (msg ?c) = Some alice"
    "user_id alice \<noteq> 0" "user_id alice \<noteq> user_id bob" "chat_id ?c = 1" "user_id bob = 8"
    "user_id alice = 7"
    by (simp_all add: says_def bob_def alice_def karma_trigger_def truthy_def or_empty_def
        trim_def js_whitespace_def plus_sign_def)
  have cold: "cooling cooling_db (1, 8) 90000" and warm: "\<not> cooling cooling_db (1, 8) 90030"
    by (simp_all add: cooling_def cooling_db_def pending_db_def empty_db_def)
  have before: "karma_of cooling_db (1, 7) = 0" "karma_given_of cooling_db (1, 8) = 0"
    "karma_cooldowns cooling_db (1, 8) = Some 89990"
    by (simp_all add: karma_of_def karma_given_of_def getStats_def cooling_db_def
        pending_db_def empty_db_def zero_stats_def)
  from karma_grant_and_cooldown [OF a(1-7), where d = cooling_db and clk = "at_time 90000"
      and e = cooling_db and x = "Leaderboard 1" and k = "(1, 8)" and ?t0.0 = 89990
      and xs = "[]" and t = 90030] cold before
  have rejected:
    "karma_of (on_message cooling_db ?c (at_time 90000)) (1, 7) = 0
     \<and> karma_cooldowns (on_message cooling_db ?c (at_time 90000)) (1, 8) = Some 89990"
    by (simp add: a at_time_def views_after_counter tables_after_counter)
  from karma_grant_and_cooldown [OF a(1-7), where d = cooling_db and clk = "at_time 90030"
      and e = cooling_db and x = "Leaderboard 1" and k = "(1, 8)" and ?t0.0 = 89990
      and xs = "[]" and t = 90030] warm before
  have granted:
    "karma_of (on_message cooling_db ?c (at_time 90030)) (1, 7) = 1
     \<and> karma_given_of (on_message cooling_db ?c (at_time 90030)) (1, 8) = 1
     \<and> karma_cooldowns (on_message cooling_db ?c (at_time 90030)) (1, 8) = Some 90030"
    by (simp add: a at_time_def)
  from a(4) cold warm rejected granted show ?thesis by simp
qed

end
